theory Spec2Isabelle
  imports Complex_Main "HOL-Library.Sublist" "HOL-Library.AList"
begin

text \<open>
  A shallow embedding of the carousel of \<open>library/js/carousel.js\<close>: the state object, the
  partition of the tiles into frames, the four navigation calls, the class and
  \<open>tabindex\<close> markers of the tiles and the two buttons.
\<close>

section \<open>JavaScript values used by the carousel\<close>

text \<open>
  Every number the carousel stores comes from \<open>parseInt\<close>, from a \<open>length\<close>, or from
  \<open>+\<close>, \<open>-\<close>, \<open>*\<close> and \<open>Math.ceil\<close> of a quotient of such numbers, so a number is an
  integer, an infinity or NaN. Quotients are only ever consumed by \<open>Math.ceil\<close> or by a
  comparison, and both are modelled on the exact quotient. Integers are unbounded
  (the safe-integer range of a double is not modelled) and negative zero is identified
  with zero.
\<close>

datatype jsnum = Num int | PosInf | NegInf | NaN

text \<open>A property that holds \<open>false\<close>, \<open>undefined\<close> or an object.\<close>

datatype 'a slot = SFalse | SUndefined | SVal 'a

text \<open>An argument passed by the caller: \<open>undefined\<close>, a number or a string.\<close>

datatype jsval = VUndefined | VNumber jsnum | VString string

datatype error = TypeError

fun js_neg :: "jsnum \<Rightarrow> jsnum" where
  "js_neg (Num a) = Num (- a)"
| "js_neg PosInf = NegInf"
| "js_neg NegInf = PosInf"
| "js_neg NaN = NaN"

fun js_add :: "jsnum \<Rightarrow> jsnum \<Rightarrow> jsnum" where
  "js_add (Num a) (Num b) = Num (a + b)"
| "js_add NaN b = NaN"
| "js_add a NaN = NaN"
| "js_add PosInf NegInf = NaN"
| "js_add NegInf PosInf = NaN"
| "js_add PosInf b = PosInf"
| "js_add NegInf b = NegInf"
| "js_add a PosInf = PosInf"
| "js_add a NegInf = NegInf"

definition js_sub :: "jsnum \<Rightarrow> jsnum \<Rightarrow> jsnum" where
  "js_sub a b = js_add a (js_neg b)"

fun js_sgn :: "jsnum \<Rightarrow> int" where
  "js_sgn (Num a) = sgn a"
| "js_sgn PosInf = 1"
| "js_sgn NegInf = - 1"
| "js_sgn NaN = 0"

fun js_mul :: "jsnum \<Rightarrow> jsnum \<Rightarrow> jsnum" where
  "js_mul (Num a) (Num b) = Num (a * b)"
| "js_mul NaN b = NaN"
| "js_mul a NaN = NaN"
| "js_mul a b =
     (if js_sgn a * js_sgn b = 0 then NaN
      else if 0 < js_sgn a * js_sgn b then PosInf else NegInf)"

fun js_lt :: "jsnum \<Rightarrow> jsnum \<Rightarrow> bool" where
  "js_lt (Num a) (Num b) = (a < b)"
| "js_lt NaN b = False"
| "js_lt a NaN = False"
| "js_lt PosInf b = False"
| "js_lt a NegInf = False"
| "js_lt NegInf b = True"
| "js_lt a PosInf = True"

definition js_gt :: "jsnum \<Rightarrow> jsnum \<Rightarrow> bool" where
  "js_gt a b = js_lt b a"

text \<open>\<open>a >= b\<close> and \<open>a <= b\<close>: false as soon as one side is NaN.\<close>

definition js_ge :: "jsnum \<Rightarrow> jsnum \<Rightarrow> bool" where
  "js_ge a b = (a \<noteq> NaN \<and> b \<noteq> NaN \<and> \<not> js_lt a b)"

definition js_le :: "jsnum \<Rightarrow> jsnum \<Rightarrow> bool" where
  "js_le a b = (a \<noteq> NaN \<and> b \<noteq> NaN \<and> \<not> js_lt b a)"

text \<open>\<open>a === b\<close> on numbers: NaN is not equal to itself.\<close>

definition js_seq :: "jsnum \<Rightarrow> jsnum \<Rightarrow> bool" where
  "js_seq a b = (a \<noteq> NaN \<and> a = b)"

text \<open>Truthiness of a number: zero and NaN are falsy.\<close>

fun js_truthy :: "jsnum \<Rightarrow> bool" where
  "js_truthy (Num a) = (a \<noteq> 0)"
| "js_truthy NaN = False"
| "js_truthy PosInf = True"
| "js_truthy NegInf = True"

text \<open>\<open>Math.ceil(a / b)\<close>, on the exact quotient.\<close>

fun js_ceil_div :: "jsnum \<Rightarrow> jsnum \<Rightarrow> jsnum" where
  "js_ceil_div (Num a) (Num b) =
     (if b = 0 then (if 0 < a then PosInf else if a < 0 then NegInf else NaN)
      else Num (- ((- a) div b)))"
| "js_ceil_div NaN b = NaN"
| "js_ceil_div a NaN = NaN"
| "js_ceil_div (Num a) b = Num 0"
| "js_ceil_div PosInf (Num b) = (if b < 0 then NegInf else PosInf)"
| "js_ceil_div NegInf (Num b) = (if b < 0 then PosInf else NegInf)"
| "js_ceil_div a b = NaN"

text \<open>\<open>s < n / b\<close> for integers \<open>s\<close> and \<open>n\<close>, on the exact quotient.\<close>

fun js_lt_quot :: "int \<Rightarrow> int \<Rightarrow> jsnum \<Rightarrow> bool" where
  "js_lt_quot s n (Num b) =
     (if 0 < b then s * b < n else if b < 0 then n < s * b else 0 < n)"
| "js_lt_quot s n NaN = False"
| "js_lt_quot s n b = (s < 0)"

text \<open>
  Reading \<open>xs[i]\<close> from an array or an HTMLCollection: \<open>undefined\<close> (here \<open>None\<close>)
  unless \<open>i\<close> is an index of the list.
\<close>

fun js_nth :: "'a list \<Rightarrow> jsnum \<Rightarrow> 'a option" where
  "js_nth xs (Num i) = (if 0 \<le> i \<and> i < int (length xs) then Some (xs ! nat i) else None)"
| "js_nth xs PosInf = None"
| "js_nth xs NegInf = None"
| "js_nth xs NaN = None"

definition slot_of :: "'a option \<Rightarrow> 'a slot" where
  "slot_of v = (case v of None \<Rightarrow> SUndefined | Some x \<Rightarrow> SVal x)"

text \<open>
  \<open>Array.prototype.slice.call(xs, start, end)\<close>: an argument is truncated to an
  integer (NaN to 0), a negative one counts from the end, both are clamped into the list.
\<close>

fun rel_index :: "int \<Rightarrow> jsnum \<Rightarrow> int" where
  "rel_index len (Num i) = (if i < 0 then max (len + i) 0 else min i len)"
| "rel_index len PosInf = len"
| "rel_index len NegInf = 0"
| "rel_index len NaN = 0"

definition js_slice :: "'a list \<Rightarrow> jsnum \<Rightarrow> jsnum \<Rightarrow> 'a list" where
  "js_slice xs start fin =
     (let len = int (length xs);
          k = rel_index len start;
          final = rel_index len fin
      in take (nat (final - k)) (drop (nat k) xs))"

subsection \<open>Strings\<close>

text \<open>The characters matched by \<open>\s\<close>, among the 8-bit characters of a HOL string.\<close>

definition is_ws :: "char \<Rightarrow> bool" where
  "is_ws c = ((of_char c :: nat) \<in> {9, 10, 11, 12, 13, 32, 160})"

definition is_digit :: "char \<Rightarrow> bool" where
  "is_digit c = (48 \<le> (of_char c :: nat) \<and> (of_char c :: nat) \<le> 57)"

definition digit_val :: "char \<Rightarrow> int" where
  "digit_val c = int (of_char c) - 48"

text \<open>
  \<open>parseInt(s, 10)\<close> on a string: leading white space is skipped, a sign is read, then the
  longest run of decimal digits; NaN when there is no digit.
\<close>

definition parseInt_string :: "string \<Rightarrow> jsnum" where
  "parseInt_string s =
     (let t = dropWhile is_ws s;
          neg = (t \<noteq> [] \<and> hd t = CHR ''-'');
          u = (if t \<noteq> [] \<and> (hd t = CHR ''-'' \<or> hd t = CHR ''+'') then tl t else t);
          ds = takeWhile is_digit u
      in if ds = [] then NaN
         else Num ((if neg then - 1 else 1) * foldl (\<lambda>a c. 10 * a + digit_val c) 0 ds))"

text \<open>
  \<open>parseInt(v, 10)\<close>: the argument is first converted to a string. An integer prints as
  its decimal digits and parses back to itself; \<open>undefined\<close>, NaN and the infinities
  print as words without a leading digit. A number with a fractional part is passed as
  the string it prints as, for example \<open>''2.5''\<close>.
\<close>

fun parseInt :: "jsval \<Rightarrow> jsnum" where
  "parseInt VUndefined = NaN"
| "parseInt (VNumber (Num i)) = Num i"
| "parseInt (VNumber PosInf) = NaN"
| "parseInt (VNumber NegInf) = NaN"
| "parseInt (VNumber NaN) = NaN"
| "parseInt (VString s) = parseInt_string s"

text \<open>\<open>s.replace(/\slit/, rep)\<close> for a literal \<open>lit\<close>: the leftmost match only.\<close>

fun replace_ws :: "string \<Rightarrow> string \<Rightarrow> string \<Rightarrow> string" where
  "replace_ws lit rep [] = []"
| "replace_ws lit rep (c # cs) =
     (if is_ws c \<and> prefix lit cs then rep @ drop (length lit) cs
      else c # replace_ws lit rep cs)"


text \<open>\<open>s.replace(/^\s/, '')\<close>.\<close>

fun strip_leading_ws :: "string \<Rightarrow> string" where
  "strip_leading_ws [] = []"
| "strip_leading_ws (c # cs) = (if is_ws c then cs else c # cs)"


section \<open>The data model\<close>

text \<open>
  A DOM element is known by its reference, its position in the store \<open>elems\<close>. Of a tile
  the carousel reads and writes the class name, the \<open>tabindex\<close> attribute and the
  \<open>style\<close> attribute; its outer width and height (offset size plus margins) are measured
  by the host. The width written into \<open>style\<close> is a floating-point percentage: only the
  fact that the attribute was written is kept.
\<close>

type_synonym ref = nat

record element =
  className :: string
  tabindex :: "string option"
  styled :: bool
  outerW :: jsnum
  outerH :: jsnum

text \<open>The options after \<open>x.extend({}, defaults, options)\<close>; a callback is present or null.\<close>

record options =
  increment :: jsnum
  incrementMode :: string
  wrapControls :: bool
  preFrameChange :: bool
  postFrameChange :: bool

text \<open>What the caller passes to \<open>setup\<close>: \<open>None\<close> is an option left out.\<close>

record user_options =
  user_increment :: "jsval option"
  user_incrementMode :: "string option"
  user_wrapControls :: "bool option"
  user_preFrameChange :: bool
  user_postFrameChange :: bool

text \<open>
  The state object. \<open>tileArr\<close> and \<open>tileObj\<close> alias the live collection
  \<open>carousel.children\<close> and are read from the environment; the \<open>dom\<close> entry only holds
  references to nodes.
\<close>

record state =
  index :: jsnum
  offset :: jsnum
  spacers :: jsnum
  prevIndex :: "jsnum slot"
  origTileLength :: jsnum
  curTileLength :: jsnum
  tileWidth :: jsnum
  tileHeight :: jsnum
  curTile :: "ref slot"
  prevTile :: "ref slot"
  frameArr :: "ref list list"
  origFrameLength :: jsnum
  curFrameLength :: jsnum
  frameWidth :: jsnum
  curFrame :: "ref list slot"
  prevFrame :: "ref list slot"
  frameIndex :: jsnum
  frameNumber :: jsnum
  prevFrameIndex :: jsnum
  prevFrameNumber :: jsnum
  tileDelta :: jsnum

text \<open>
  What an observer sees: a topic published on the bus (without the namespace prefix),
  or one of the two callbacks called with the state object.
\<close>

datatype event = Publish string | PreFrameChange state | PostFrameChange state

text \<open>
  Everything of an instance besides its options and its state: the element store, the
  live collection of the list's children, the cache object, the \<open>disabled\<close> property of
  the two buttons, the class of the list element, the focused element, and the trace
  of events.
\<close>

record env =
  elems :: "element list"
  children :: "ref list"
  cacheObj :: "(string \<times> bool) list"
  prevBtn_disabled :: bool
  nextBtn_disabled :: bool
  carouselClass :: string
  focused :: "ref option"
  events :: "event list"

record carousel =
  copts :: options
  cstate :: state
  cenv :: env

section \<open>The operations\<close>

definition defaults :: options where
  "defaults = \<lparr>increment = Num 1, incrementMode = ''frame'', wrapControls = False,
     preFrameChange = False, postFrameChange = False\<rparr>"

text \<open>
  Modelled from the spec: \<open>x.publish\<close> of the library \<open>vendor/x\<close>, which is not among the
  sources. The publish/subscribe mechanism is an external collaborator of the state
  machine: a published topic is recorded in the trace and has no other effect.
\<close>

definition publish :: "string \<Rightarrow> env \<Rightarrow> env" where
  "publish topic e = e\<lparr>events := events e @ [Publish topic]\<rparr>"

text \<open>\<open>outerWidth\<close> and \<open>outerHeight\<close> read a property of their argument: a TypeError on \<open>undefined\<close>.\<close>

definition outerWidth :: "ref option \<Rightarrow> env \<Rightarrow> error + jsnum" where
  "outerWidth el e = (case el of None \<Rightarrow> Inl TypeError | Some r \<Rightarrow> Inr (outerW (elems e ! r)))"

definition outerHeight :: "ref option \<Rightarrow> env \<Rightarrow> error + jsnum" where
  "outerHeight el e = (case el of None \<Rightarrow> Inl TypeError | Some r \<Rightarrow> Inr (outerH (elems e ! r)))"

text \<open>\<open>cache(key)\<close> read for its truthiness, and \<open>cache(key, value)\<close>, which stores only a truthy value.\<close>

definition cache_get :: "string \<Rightarrow> env \<Rightarrow> bool" where
  "cache_get key e = (case map_of (cacheObj e) key of None \<Rightarrow> False | Some v \<Rightarrow> v)"

definition cache_set :: "string \<Rightarrow> bool \<Rightarrow> env \<Rightarrow> env" where
  "cache_set key v e = (if \<not> v then e else e\<lparr>cacheObj := AList.update key v (cacheObj e)\<rparr>)"

text \<open>The body of the loop of \<open>toggleAria\<close> for one item.\<close>

definition toggle_item :: "bool \<Rightarrow> string \<Rightarrow> bool \<Rightarrow> element \<Rightarrow> element" where
  "toggle_item add initClass hasAriaInited item =
     (let classes = className item @ initClass
      in if sublist ''carousel-tile-spacer'' classes then item
         else
           let classes = (if add then replace_ws ''state-visible'' '' state-hidden'' classes
                          else replace_ws ''state-hidden'' '' state-visible'' classes);
               item = item\<lparr>className := strip_leading_ws classes\<rparr>
           in if \<not> hasAriaInited
              then item\<lparr>className := className item @ '' state-hidden'', tabindex := Some ''-1''\<rparr>
              else item)"

fun toggle_loop :: "bool \<Rightarrow> string \<Rightarrow> bool \<Rightarrow> ref list \<Rightarrow> element list \<Rightarrow> element list" where
  "toggle_loop add initClass inited [] es = es"
| "toggle_loop add initClass inited (r # rs) es =
     toggle_loop add initClass inited rs (es[r := toggle_item add initClass inited (es ! r)])"

text \<open>
  \<open>toggleAria(itemArray, operation, initClass)\<close>. Reading \<open>length\<close> of \<open>undefined\<close> throws;
  \<open>false.length\<close> is \<open>undefined\<close> and the loop does not run.
\<close>

definition toggleAria :: "ref list slot \<Rightarrow> string \<Rightarrow> string option \<Rightarrow> env \<Rightarrow> error + env" where
  "toggleAria itemArray operation initClass e =
     (case itemArray of
        SUndefined \<Rightarrow> Inl TypeError
      | SFalse \<Rightarrow> Inr (cache_set ''hasAriaInited'' True e)
      | SVal items \<Rightarrow>
          let add = (operation = ''add'');
              initClass = (case initClass of None \<Rightarrow> [] | Some ic \<Rightarrow> if ic = [] then [] else '' '' @ ic);
              hasAriaInited = cache_get ''hasAriaInited'' e;
              e = e\<lparr>elems := toggle_loop add initClass hasAriaInited items (elems e)\<rparr>
          in Inr (cache_set ''hasAriaInited'' True e))"

text \<open>
  The loop that builds \<open>frameArr\<close>. Its bound \<open>len = tileArr.length / increment\<close> is
  infinite for an increment of zero, so the loop need not end: \<open>None\<close> is a run that
  never returns. \<open>count\<close> is always \<open>sec + 1\<close>.
\<close>

partial_function (option) frame_loop ::
  "jsnum \<Rightarrow> ref list \<Rightarrow> int \<Rightarrow> ref list list \<Rightarrow> ref list list option" where
  "frame_loop inc tileArr sec frames =
     (if js_lt_quot sec (int (length tileArr)) inc
      then frame_loop inc tileArr (sec + 1)
             (frames @ [js_slice tileArr (js_mul inc (Num sec)) (js_mul inc (Num (sec + 1)))])
      else Some frames)"

declare frame_loop.simps [code]

text \<open>
  The last loop of \<open>normalizeState\<close>: it writes the style of the first child and appends
  that child to the list again, once for each child. The collection is live, so the
  children rotate; the bound \<open>tileArr.length\<close> does not change.
\<close>

fun style_loop :: "nat \<Rightarrow> env \<Rightarrow> env" where
  "style_loop 0 e = e"
| "style_loop (Suc k) e =
     (case children e of
        [] \<Rightarrow> e
      | r # rs \<Rightarrow> style_loop k
          (e\<lparr>elems := (elems e)[r := (elems e ! r)\<lparr>styled := True\<rparr>], children := rs @ [r]\<rparr>))"

text \<open>
  \<open>normalizeState\<close>. The object literal has no \<open>tileDelta\<close>; the property is added by
  the assignment further down, and NaN stands for the missing property until then.
\<close>

definition normalizeState :: "options \<Rightarrow> env \<Rightarrow> (error + state \<times> env) option" where
  "normalizeState ops e0 =
     (let e1 = publish ''/normalizeState/before'' e0;
          tileArr = children e1;
          firstTile = js_nth tileArr (Num 0)
      in case outerWidth firstTile e1 of Inl err \<Rightarrow> Some (Inl err) | Inr tw \<Rightarrow>
         case outerHeight firstTile e1 of Inl err \<Rightarrow> Some (Inl err) | Inr th \<Rightarrow>
         let inc = increment ops;
             origLen = Num (int (length tileArr));
             curLen = origLen;
             frameLength = js_ceil_div curLen inc;
             state = \<lparr>index = Num 0, offset = Num 0, spacers = Num 0, prevIndex = SFalse,
                      origTileLength = origLen, curTileLength = curLen,
                      tileWidth = tw, tileHeight = th,
                      curTile = SFalse, prevTile = SFalse, frameArr = [],
                      origFrameLength = frameLength, curFrameLength = frameLength,
                      frameWidth = js_mul inc tw, curFrame = SVal [], prevFrame = SVal [],
                      frameIndex = Num 0, frameNumber = Num 1,
                      prevFrameIndex = Num 0, prevFrameNumber = Num 1,
                      tileDelta = NaN\<rparr>
         in case toggleAria (SVal tileArr) ''add'' (Some ''carousel-tile'') e1 of
              Inl err \<Rightarrow> Some (Inl err)
            | Inr e2 \<Rightarrow>
         case frame_loop inc tileArr 0 (frameArr state) of
              None \<Rightarrow> None
            | Some frames \<Rightarrow>
         let state = state\<lparr>frameArr := frames\<rparr>;
             state = state\<lparr>index := Num 0\<rparr>;
             state = state\<lparr>offset := (if js_truthy (index state) then frameWidth state else offset state)\<rparr>;
             state = state\<lparr>curTile := slot_of (js_nth (children e2) (index state))\<rparr>;
             state = state\<lparr>curTileLength := Num (int (length (children e2)))\<rparr>;
             state = state\<lparr>curFrameLength := js_ceil_div (curTileLength state) inc\<rparr>;
             state = state\<lparr>frameIndex := js_ceil_div (index state) inc\<rparr>;
             state = state\<lparr>frameNumber := js_add (frameIndex state) (Num 1)\<rparr>;
             state = state\<lparr>prevFrameIndex := frameIndex state\<rparr>;
             state = state\<lparr>prevFrameNumber := js_add (prevFrameIndex state) (Num 1)\<rparr>;
             state = state\<lparr>curFrame := slot_of (js_nth (frameArr state) (frameIndex state))\<rparr>;
             state = state\<lparr>tileDelta := js_sub (js_mul inc (curFrameLength state)) (curTileLength state)\<rparr>
         in case toggleAria (curFrame state) ''remove'' None e2 of
              Inl err \<Rightarrow> Some (Inl err)
            | Inr e3 \<Rightarrow>
         let e4 = style_loop (length (children e3)) e3
         in Some (Inr (state, publish ''/normalizeState/after'' e4)))"


text \<open>
  A call that can throw after it has changed the instance returns the error, if any,
  together with the instance as the throw leaves it.
\<close>

definition on_env :: "(env \<Rightarrow> env) \<Rightarrow> carousel \<Rightarrow> carousel" where
  "on_env f c = c\<lparr>cenv := f (cenv c)\<rparr>"

text \<open>\<open>if (callback) callback.call(this, state)\<close>: the call is recorded in the trace.\<close>

definition call_hook :: "bool \<Rightarrow> event \<Rightarrow> carousel \<Rightarrow> carousel" where
  "call_hook present ev c = (if present then on_env (\<lambda>e. e\<lparr>events := events e @ [ev]\<rparr>) c else c)"

definition lift_env :: "(env \<Rightarrow> error + env) \<Rightarrow> carousel \<Rightarrow> error option \<times> carousel" where
  "lift_env f c = (case f (cenv c) of Inl err \<Rightarrow> (Some err, c) | Inr e \<Rightarrow> (None, on_env (\<lambda>_. e) c))"

definition and_then ::
  "error option \<times> carousel \<Rightarrow> (carousel \<Rightarrow> error option \<times> carousel) \<Rightarrow> error option \<times> carousel" where
  "and_then r f = (case r of (None, c) \<Rightarrow> f c | (Some err, c) \<Rightarrow> (Some err, c))"

definition updateNavigation :: "carousel \<Rightarrow> carousel" where
  "updateNavigation c =
     (let state = cstate c;
          idx = index state;
          isFirst = js_seq idx (Num 0);
          isLast = js_ge (js_add idx (increment (copts c))) (curTileLength state)
      in on_env (\<lambda>e. e\<lparr>prevBtn_disabled := isFirst, nextBtn_disabled := isLast\<rparr>) c)"

text \<open>\<open>state.curTile.focus()\<close>: a TypeError unless \<open>curTile\<close> is an element.\<close>

definition focus :: "ref slot \<Rightarrow> carousel \<Rightarrow> error option \<times> carousel" where
  "focus t c =
     (case t of
        SVal r \<Rightarrow> (None, on_env (\<lambda>e. e\<lparr>focused := Some r\<rparr>) c)
      | SUndefined \<Rightarrow> (Some TypeError, c)
      | SFalse \<Rightarrow> (Some TypeError, c))"

text \<open>
  \<open>animate\<close>. The class of the list element is set to \<open>state-busy\<close> and, once the
  tile has the focus, that word is replaced by the empty string.
\<close>

definition animate :: "carousel \<Rightarrow> error option \<times> carousel" where
  "animate c0 =
     (let c = on_env (publish ''/animate/before'') c0;
          state = cstate c;
          c = call_hook (preFrameChange (copts c)) (PreFrameChange state) c;
          c = on_env (\<lambda>e. e\<lparr>carouselClass := ''state-busy''\<rparr>) c
      in and_then (lift_env (toggleAria (SVal (children (cenv c))) ''remove'' None) c) (\<lambda>c.
         let c = updateNavigation c
         in and_then (lift_env (toggleAria (SVal (children (cenv c))) ''add'' None) c) (\<lambda>c.
            and_then (lift_env (toggleAria (curFrame state) ''remove'' None) c) (\<lambda>c.
            and_then (focus (curTile state) c) (\<lambda>c.
            let c = on_env (\<lambda>e. e\<lparr>carouselClass := []\<rparr>) c;
                c = call_hook (postFrameChange (copts c)) (PostFrameChange state) c
            in (None, on_env (publish ''/animate/after'') c))))))"

text \<open>
  The conditional expression of \<open>updateState\<close> that bounds the requested index:
  \<open>index > len - inc ? len - inc : index < 0 ? 0 : index\<close>.
\<close>

definition clamp_index :: "jsnum \<Rightarrow> jsnum \<Rightarrow> jsnum \<Rightarrow> jsnum" where
  "clamp_index idx len inc =
     (if js_gt idx (js_sub len inc) then js_sub len inc
      else if js_lt idx (Num 0) then Num 0
      else idx)"

definition updateState :: "jsnum \<Rightarrow> bool \<Rightarrow> carousel \<Rightarrow> error option \<times> carousel" where
  "updateState idx0 anim c =
     (let state = cstate c;
          ops = copts c;
          inc = increment ops;
          idx = clamp_index idx0 (curTileLength state) inc;
          fi = js_ceil_div idx inc;
          fno = js_add fi (Num 1);
          isLastFrame = js_seq idx (js_sub (curTileLength state) inc);
          tileArr = children (cenv c);
          state' = state\<lparr>
            index := idx,
            offset := js_mul (tileWidth state) idx,
            prevIndex := SVal (index state),
            prevTile := curTile state,
            curTile := (if isLastFrame \<and> js_truthy (tileDelta state) \<and> incrementMode ops = ''frame''
                        then slot_of (js_nth tileArr (js_add idx (tileDelta state)))
                        else slot_of (js_nth tileArr idx)),
            curFrame := SVal (js_slice tileArr idx (js_add inc idx)),
            prevFrame := curFrame state,
            frameIndex := fi,
            frameNumber := fno,
            prevFrameIndex := frameIndex state,
            prevFrameNumber := frameNumber state\<rparr>;
          c = c\<lparr>cstate := state'\<rparr>
      in if anim then animate c else (None, c))"

definition buildNavigation :: "carousel \<Rightarrow> carousel" where
  "buildNavigation c =
     (let e = publish ''/navigation/before'' (cenv c);
          state = cstate c;
          idx = index state;
          e = e\<lparr>prevBtn_disabled := False, nextBtn_disabled := False\<rparr>;
          e = (if js_le (curTileLength state) (increment (copts c))
               then e\<lparr>prevBtn_disabled := True, nextBtn_disabled := True\<rparr> else e);
          e = (if js_seq idx (Num 0) then e\<lparr>prevBtn_disabled := True\<rparr> else e);
          e = publish ''/navigation/controls/insert/before'' e;
          e = publish ''/navigation/controls/insert/after'' e;
          e = publish ''/navigation/after'' e
      in c\<lparr>cenv := e\<rparr>)"

definition prevFrame_method :: "carousel \<Rightarrow> error option \<times> carousel" where
  "prevFrame_method c0 =
     (let c = on_env (publish ''/prevFrame/before'') c0;
          idx = index (cstate c);
          idx = (if incrementMode (copts c) = ''tile'' then js_sub idx (Num 1)
                 else js_sub idx (increment (copts c)))
      in and_then (updateState idx True c)
           (\<lambda>c. (None, on_env (publish ''/prevFrame/after'') c)))"

definition nextFrame :: "carousel \<Rightarrow> error option \<times> carousel" where
  "nextFrame c0 =
     (let c = on_env (publish ''/nextFrame/before'') c0;
          idx = index (cstate c);
          idx = (if incrementMode (copts c) = ''tile'' then js_add idx (Num 1)
                 else js_add idx (increment (copts c)))
      in and_then (updateState idx True c)
           (\<lambda>c. (None, on_env (publish ''/nextFrame/after'') c)))"

definition jumpToFrame :: "jsval \<Rightarrow> carousel \<Rightarrow> error option \<times> carousel" where
  "jumpToFrame frame0 c =
     (let state = cstate c;
          frame = parseInt frame0;
          inc = increment (copts c);
          idx = js_sub (js_mul frame inc) inc;
          idx = (if js_lt idx (Num 0) then Num 0 else idx)
      in if js_seq idx (index state) \<or> js_gt frame (curFrameLength state) then (None, c)
         else updateState idx True c)"

definition reset :: "carousel \<Rightarrow> error option \<times> carousel" where
  "reset c = updateState (Num 0) True c"

text \<open>
  \<open>init\<close> and \<open>setup\<close>. The list is taken as mounted (it has a parent node); its
  children are the given tiles, in document order.

  Modelled from the spec: \<open>x.extend\<close> of the library \<open>vendor/x\<close>, which is not among the
  sources. \<open>x.extend({}, defaults, options)\<close> gives every recognised option the caller's
  value where there is one and the default otherwise; \<open>x.extend(this.state, {...})\<close> in
  \<open>updateState\<close> overwrites the listed properties of the state.
\<close>

definition init :: "options \<Rightarrow> env \<Rightarrow> (error + carousel) option" where
  "init ops e0 =
     (let e = publish ''/init/before'' e0
      in case normalizeState ops e of
           None \<Rightarrow> None
         | Some (Inl err) \<Rightarrow> Some (Inl err)
         | Some (Inr (state, e)) \<Rightarrow>
             let c = buildNavigation \<lparr>copts = ops, cstate = state, cenv = e\<rparr>
             in Some (Inr (c\<lparr>cenv := publish ''/init/after'' (cenv c)\<rparr>)))"

text \<open>The page before \<open>setup\<close>: the tiles are the children of the list, nothing else exists yet.\<close>

definition page :: "element list \<Rightarrow> env" where
  "page tiles = \<lparr>elems = tiles, children = [0..<length tiles], cacheObj = [],
     prevBtn_disabled = False, nextBtn_disabled = False,
     carouselClass = [], focused = None, events = []\<rparr>"

definition setup_carousel :: "user_options \<Rightarrow> element list \<Rightarrow> (error + carousel) option" where
  "setup_carousel uo tiles =
     (let e = publish ''/setup/before'' (page tiles);
          e = e\<lparr>cacheObj := []\<rparr>;
          ops = \<lparr>increment = (case user_increment uo of None \<Rightarrow> increment defaults | Some v \<Rightarrow> parseInt v),
                 incrementMode = (case user_incrementMode uo of None \<Rightarrow> incrementMode defaults | Some m \<Rightarrow> m),
                 wrapControls = (case user_wrapControls uo of None \<Rightarrow> wrapControls defaults | Some w \<Rightarrow> w),
                 preFrameChange = user_preFrameChange uo,
                 postFrameChange = user_postFrameChange uo\<rparr>;
          e = publish ''/setup/after'' e
      in init ops e)"


section \<open>Notions used in the statements\<close>

text \<open>The frames a positive integer increment \<open>m\<close> cuts a list into.\<close>

definition frames_of :: "nat \<Rightarrow> 'a list \<Rightarrow> 'a list list" where
  "frames_of m ts = map (\<lambda>k. take m (drop (k * m) ts)) [0 ..< nat \<lceil>real (length ts) / real m\<rceil>]"

text \<open>A tile without classes, used in the concrete scenarios.\<close>

definition blank_tile :: element where
  "blank_tile = \<lparr>className = [], tabindex = None, styled = False, outerW = Num 100, outerH = Num 50\<rparr>"

text \<open>The options of a caller who sets the increment and the mode, and both callbacks.\<close>

definition user_opts :: "jsval \<Rightarrow> string \<Rightarrow> user_options" where
  "user_opts inc mode = \<lparr>user_increment = Some inc, user_incrementMode = Some mode,
     user_wrapControls = None, user_preFrameChange = True, user_postFrameChange = True\<rparr>"

text \<open>The events one completed run of \<open>animate\<close> adds to the trace.\<close>

definition animate_events :: "options \<Rightarrow> state \<Rightarrow> event list" where
  "animate_events ops st =
     [Publish ''/animate/before''] @
     (if preFrameChange ops then [PreFrameChange st] else []) @
     (if postFrameChange ops then [PostFrameChange st] else []) @
     [Publish ''/animate/after'']"

text \<open>The environment after \<open>toggleAria\<close> on a list of items, without an init class.\<close>

definition toggle_env :: "ref list \<Rightarrow> string \<Rightarrow> env \<Rightarrow> env" where
  "toggle_env items operation e =
     cache_set ''hasAriaInited'' True
       (e\<lparr>elems := toggle_loop (operation = ''add'') [] (cache_get ''hasAriaInited'' e) items (elems e)\<rparr>)"

text \<open>The state object after the \<open>x.extend\<close> of \<open>updateState\<close>.\<close>

definition committed :: "jsnum \<Rightarrow> carousel \<Rightarrow> state" where
  "committed idx0 c = cstate (snd (updateState idx0 False c))"

text \<open>
  An instance as normalization leaves its sizes: N \<ge> 1 tiles, an integer increment
  m \<ge> 1, and the tile count, frame count and \<open>tileDelta\<close> that belong to them.
\<close>

definition configured :: "nat \<Rightarrow> nat \<Rightarrow> carousel \<Rightarrow> bool" where
  "configured N m c \<longleftrightarrow>
     1 \<le> m \<and> 1 \<le> N \<and> length (children (cenv c)) = N \<and>
     increment (copts c) = Num (int m) \<and>
     curTileLength (cstate c) = Num (int N) \<and>
     curFrameLength (cstate c) = Num \<lceil>real N / real m\<rceil> \<and>
     tileDelta (cstate c) = Num (int m * \<lceil>real N / real m\<rceil> - int N)"

text \<open>The clamp of \<open>updateState\<close> on integers.\<close>

definition clamp :: "nat \<Rightarrow> nat \<Rightarrow> int \<Rightarrow> int" where
  "clamp N m y = (if int N - int m < y then int N - int m else if y < 0 then 0 else y)"

text \<open>The four navigation calls of the public interface.\<close>

datatype call = Next | Prev | Jump jsval | Reset

text \<open>One call, with what it throws and the instance it leaves.\<close>

fun run :: "call \<Rightarrow> carousel \<Rightarrow> error option \<times> carousel" where
  "run Next c = nextFrame c"
| "run Prev c = prevFrame_method c"
| "run (Jump v) c = jumpToFrame v c"
| "run Reset c = reset c"

text \<open>The index \<open>nextFrame\<close> and \<open>prevFrame\<close> ask \<open>updateState\<close> for.\<close>

definition step_next :: "carousel \<Rightarrow> jsnum" where
  "step_next c = (if incrementMode (copts c) = ''tile'' then js_add (index (cstate c)) (Num 1)
                   else js_add (index (cstate c)) (increment (copts c)))"

definition step_prev :: "carousel \<Rightarrow> jsnum" where
  "step_prev c = (if incrementMode (copts c) = ''tile'' then js_sub (index (cstate c)) (Num 1)
                   else js_sub (index (cstate c)) (increment (copts c)))"

text \<open>The instance \<open>setup\<close> returns, where it returns one.\<close>

definition ready :: "user_options \<Rightarrow> element list \<Rightarrow> carousel" where
  "ready uo tiles = projr (the (setup_carousel uo tiles))"

text \<open>A call whose argument, if it has one, parses as an integer.\<close>

definition int_call :: "call \<Rightarrow> bool" where
  "int_call k = (case k of Jump v \<Rightarrow> parseInt v \<noteq> NaN | _ \<Rightarrow> True)"

text \<open>The instances of the two scenarios: ten tiles and two tiles, three per frame, frame mode.\<close>

definition c10 :: carousel where
  "c10 = ready (user_opts (VNumber (Num 3)) ''frame'') (replicate 10 blank_tile)"

definition c2 :: carousel where
  "c2 = ready (user_opts (VNumber (Num 3)) ''frame'') (replicate 2 blank_tile)"

text \<open>
  The shape the class name of a toggled tile has: a base without any marker, without the
  filler class and not made of white space only, followed by one marker.
\<close>

definition good_base :: "string \<Rightarrow> bool" where
  "good_base b \<longleftrightarrow>
     \<not> sublist ''state-hidden'' b \<and> \<not> sublist ''state-visible'' b \<and>
     \<not> sublist ''carousel-tile-spacer'' b \<and> (\<exists>c \<in> set b. \<not> is_ws c)"

definition tile_form :: "bool \<Rightarrow> element \<Rightarrow> bool" where
  "tile_form vis e \<longleftrightarrow>
     (\<exists>b. good_base b \<and> className e = b @ (if vis then '' state-visible'' else '' state-hidden'')) \<and>
     tabindex e = Some ''-1''"

text \<open>
  What the code reads off an element: a filler tile is one whose class name contains
  \<open>carousel-tile-spacer\<close>; the markers are the two classes as the regular expressions of
  \<open>toggleAria\<close> find them; a tile is marked unfocusable by \<open>tabindex = -1\<close>. A tile of the
  page is unmarked when its class name contains neither marker.
\<close>

definition is_spacer :: "element \<Rightarrow> bool" where
  "is_spacer e = sublist ''carousel-tile-spacer'' (className e)"





text \<open>
  The marks of the tiles of a page: a filler tile has the class name and the \<open>tabindex\<close>
  the page gave it; any other tile is in the visible or the hidden form according to
  whether its reference is in \<open>S\<close>.
\<close>

definition marks :: "element list \<Rightarrow> ref set \<Rightarrow> element list \<Rightarrow> bool" where
  "marks tiles S es \<longleftrightarrow>
     length es = length tiles \<and>
     (\<forall>r<length tiles.
        (is_spacer (tiles ! r) \<longrightarrow>
           className (es ! r) = className (tiles ! r) \<and> tabindex (es ! r) = tabindex (tiles ! r)) \<and>
        (\<not> is_spacer (tiles ! r) \<longrightarrow> tile_form (r \<in> S) (es ! r)))"




text \<open>The invariant behind \<open>markers_ok\<close>.\<close>

definition tiles_inv :: "element list \<Rightarrow> carousel \<Rightarrow> bool" where
  "tiles_inv tiles c \<longleftrightarrow>
     children (cenv c) = [0..<length tiles] \<and>
     cache_get ''hasAriaInited'' (cenv c) \<and>
     (\<exists>fr. curFrame (cstate c) = SVal fr \<and> distinct fr \<and> set fr \<subseteq> {..<length tiles} \<and>
           marks tiles (set fr) (elems (cenv c)))"

text \<open>Two tiles, one per frame.\<close>

definition c1 :: carousel where
  "c1 = ready (user_opts (VNumber (Num 1)) ''frame'') (replicate 2 blank_tile)"

section \<open>Facts about the JavaScript operations\<close>

lemma js_ceil_div_Num:
  "b \<noteq> 0 \<Longrightarrow> js_ceil_div (Num a) (Num b) = Num \<lceil>real_of_int a / real_of_int b\<rceil>"
  by (simp add: ceiling_divide_eq_div)

lemma lt_ceil_iff:
  assumes "1 \<le> (m::nat)"
  shows "s < nat \<lceil>real n / real m\<rceil> \<longleftrightarrow> s * m < n"
proof -
  have "s < nat \<lceil>real n / real m\<rceil> \<longleftrightarrow> int s < \<lceil>real n / real m\<rceil>" by linarith
  also have "\<dots> \<longleftrightarrow> real s < real n / real m" by (simp add: less_ceiling_iff)
  also have "\<dots> \<longleftrightarrow> real s * real m < real n" using assms by (simp add: pos_less_divide_eq)
  also have "\<dots> \<longleftrightarrow> s * m < n" by (metis of_nat_less_iff of_nat_mult)
  finally show ?thesis .
qed

lemma js_slice_Num:
  assumes "0 \<le> a" "a \<le> int (length xs)" "0 \<le> m"
  shows "js_slice xs (Num a) (Num (a + m)) = take (nat m) (drop (nat a) xs)"
proof -
  have "take (nat (min (a + m) (int (length xs)) - a)) (drop (nat a) xs) = take (nat m) (drop (nat a) xs)"
  proof (cases "a + m \<le> int (length xs)")
    case True
    then show ?thesis by (simp add: min_def)
  next
    case False
    then have "min (a + m) (int (length xs)) - a = int (length xs) - a" by (simp add: min_def)
    moreover have "length (drop (nat a) xs) = nat (int (length xs) - a)" using assms by simp
    moreover have "nat (int (length xs) - a) \<le> nat m" using False assms by linarith
    ultimately show ?thesis by (metis take_all order_refl)
  qed
  then show ?thesis using assms by (simp add: js_slice_def Let_def min_def)
qed

lemma frame_loop_chunks:
  assumes "1 \<le> m"
  shows "frame_loop (Num (int m)) ts (int s) acc =
         Some (acc @ map (\<lambda>k. take m (drop (k * m) ts)) [s ..< nat \<lceil>real (length ts) / real m\<rceil>])"
proof (induction "nat \<lceil>real (length ts) / real m\<rceil> - s" arbitrary: s acc)
  case 0
  then have "\<not> s < nat \<lceil>real (length ts) / real m\<rceil>" by linarith
  then have "\<not> s * m < length ts" using assms lt_ceil_iff by blast
  then have "\<not> int s * int m < int (length ts)"
    by (metis of_nat_less_iff of_nat_mult)
  with 0 assms show ?case
    by (subst frame_loop.simps) simp
next
  case (Suc d)
  then have lt: "s < nat \<lceil>real (length ts) / real m\<rceil>" by linarith
  then have sm: "s * m < length ts" using assms lt_ceil_iff by blast
  then have c: "int s * int m < int (length ts)"
    by (metis of_nat_less_iff of_nat_mult)
  have sl: "js_slice ts (js_mul (Num (int m)) (Num (int s))) (js_mul (Num (int m)) (Num (int s + 1)))
      = take m (drop (s * m) ts)"
    using js_slice_Num[of "int m * int s" ts "int m"] sm c
    by (simp add: algebra_simps nat_mult_distrib)
  have "d = nat \<lceil>real (length ts) / real m\<rceil> - Suc s" using Suc.hyps(2) by linarith
  from Suc.hyps(1)[OF this]
  have IH: "frame_loop (Num (int m)) ts (int (Suc s)) acc' =
         Some (acc' @ map (\<lambda>k. take m (drop (k * m) ts)) [Suc s ..< nat \<lceil>real (length ts) / real m\<rceil>])"
    for acc' .
  show ?case
    using c assms lt IH sl
    by (subst frame_loop.simps) (simp add: upt_conv_Cons add.commute)
qed

lemma frame_loop_frames_of:
  "1 \<le> m \<Longrightarrow> frame_loop (Num (int m)) ts 0 [] = Some (frames_of m ts)"
  using frame_loop_chunks[of m ts 0 "[]"] by (simp add: frames_of_def)

lemma toggle_loop_length [simp]: "length (toggle_loop a ic h rs es) = length es"
  by (induction rs arbitrary: es) auto

lemma toggleAria_SVal:
  "toggleAria (SVal items) operation ic e =
     Inr (cache_set ''hasAriaInited'' True
            (e\<lparr>elems := toggle_loop (operation = ''add'')
                 (case ic of None \<Rightarrow> [] | Some s \<Rightarrow> if s = [] then [] else '' '' @ s)
                 (cache_get ''hasAriaInited'' e) items (elems e)\<rparr>))"
  by (simp add: toggleAria_def Let_def)

lemma cache_set_simps [simp]:
  "elems (cache_set k v e) = elems e"
  "children (cache_set k v e) = children e"
  "events (cache_set k v e) = events e"
  "prevBtn_disabled (cache_set k v e) = prevBtn_disabled e"
  "nextBtn_disabled (cache_set k v e) = nextBtn_disabled e"
  "carouselClass (cache_set k v e) = carouselClass e"
  "focused (cache_set k v e) = focused e"
  by (simp_all add: cache_set_def)

lemma cache_get_set [simp]: "cache_get k (cache_set k True e)"
  by (simp add: cache_get_def cache_set_def update_conv')

lemma style_loop_children: "children (style_loop k e) = rotate k (children e)"
  by (induction k arbitrary: e) (simp_all split: list.splits add: rotate1_rotate_swap)

lemma style_loop_events [simp]: "events (style_loop k e) = events e"
  by (induction k arbitrary: e) (simp_all split: list.splits)

lemma style_loop_length [simp]: "length (elems (style_loop k e)) = length (elems e)"
  by (induction k arbitrary: e) (simp_all split: list.splits)

section \<open>Normalization\<close>

lemma normalizeState_ok:
  assumes ne: "children e \<noteq> []" and inc: "increment ops = Num (int m)" and m: "1 \<le> m"
  shows "\<exists>st e'. normalizeState ops e = Some (Inr (st, e'))
      \<and> frameArr st = frames_of m (children e)
      \<and> curFrameLength st = Num \<lceil>real (length (children e)) / real m\<rceil>
      \<and> origFrameLength st = curFrameLength st
      \<and> curTileLength st = Num (int (length (children e)))
      \<and> origTileLength st = curTileLength st
      \<and> tileDelta st = Num (int m * \<lceil>real (length (children e)) / real m\<rceil> - int (length (children e)))
      \<and> index st = Num 0 \<and> frameIndex st = Num 0 \<and> frameNumber st = Num 1
      \<and> prevFrameIndex st = Num 0 \<and> prevFrameNumber st = Num 1
      \<and> offset st = Num 0 \<and> prevIndex st = SFalse \<and> prevTile st = SFalse \<and> prevFrame st = SVal []
      \<and> curTile st = SVal (hd (children e))
      \<and> curFrame st = SVal (take m (children e))
      \<and> children e' = children e"
proof -
  let ?ts = "children e"
  let ?N = "length ?ts"
  have "0 * m < ?N" using ne by simp
  then have "0 < nat \<lceil>real ?N / real m\<rceil>" by (simp only: lt_ceil_iff[OF m])
  then obtain k where fc: "nat \<lceil>real ?N / real m\<rceil> = Suc k"
    using gr0_implies_Suc by blast
  have first: "js_nth ?ts (Num 0) = Some (hd ?ts)" using ne by (simp add: hd_conv_nth)
  have cd: "js_ceil_div (Num (int ?N)) (Num (int m)) = Num \<lceil>real ?N / real m\<rceil>"
    using js_ceil_div_Num[of "int m" "int ?N"] m by simp
  have f0: "js_nth (frames_of m ?ts) (Num 0) = Some (take m ?ts)"
    unfolding frames_of_def fc by (simp add: upt_rec[of 0] del: upt_Suc)
  have c0: "js_ceil_div (Num 0) (Num (int m)) = Num 0" using m by simp
  show ?thesis
    using first cd c0 f0 frame_loop_frames_of[OF m, of ?ts] inc m
    by (simp add: normalizeState_def Let_def outerWidth_def outerHeight_def publish_def
        toggleAria_SVal slot_of_def js_sub_def style_loop_children
        del: js_ceil_div.simps js_nth.simps)
qed

lemma concat_chunks: "concat (map (\<lambda>k. take m (drop (k * m) ts)) [0 ..< n]) = take (n * m) ts"
proof (induction n)
  case 0
  show ?case by simp
next
  case (Suc n)
  have "take (Suc n * m) ts = take (n * m + m) ts" by (simp add: add.commute)
  also have "\<dots> = take (n * m) ts @ take m (drop (n * m) ts)" by (rule take_add)
  finally show ?case using Suc by simp
qed

lemma frames_of_length [simp]: "length (frames_of m ts) = nat \<lceil>real (length ts) / real m\<rceil>"
  by (simp add: frames_of_def)

lemma frames_of_nth:
  "k < nat \<lceil>real (length ts) / real m\<rceil> \<Longrightarrow> frames_of m ts ! k = take m (drop (k * m) ts)"
  by (simp add: frames_of_def del: upt_Suc)

lemma frames_of_concat:
  assumes "1 \<le> m"
  shows "concat (frames_of m ts) = ts"
proof -
  let ?fc = "nat \<lceil>real (length ts) / real m\<rceil>"
  have "\<not> ?fc * m < length ts" using lt_ceil_iff[OF assms, of ?fc "length ts"] by blast
  then show ?thesis by (simp add: frames_of_def concat_chunks)
qed

lemma frames_of_full:
  assumes "1 \<le> m" "k + 1 < nat \<lceil>real (length ts) / real m\<rceil>"
  shows "length (frames_of m ts ! k) = m"
proof -
  have "(k + 1) * m < length ts" using lt_ceil_iff[OF assms(1)] assms(2) by blast
  then have "m \<le> length ts - k * m" by (simp add: algebra_simps)
  moreover have "k < nat \<lceil>real (length ts) / real m\<rceil>" using assms(2) by linarith
  ultimately show ?thesis by (simp add: frames_of_nth min_def)
qed

lemma frames_of_last:
  assumes "1 \<le> m" "ts \<noteq> []"
  shows "0 < length (last (frames_of m ts)) \<and> length (last (frames_of m ts)) \<le> m"
proof -
  let ?fc = "nat \<lceil>real (length ts) / real m\<rceil>"
  have "0 * m < length ts" using assms by simp
  then have "0 < ?fc" by (simp only: lt_ceil_iff[OF assms(1)])
  then obtain k where k: "?fc = Suc k" using gr0_implies_Suc by blast
  then have "k < ?fc" by linarith
  then have km: "k * m < length ts" using lt_ceil_iff[OF assms(1)] by blast
  have ne: "frames_of m ts \<noteq> []" using k by (metis frames_of_length length_0_conv nat.distinct(1))
  have "last (frames_of m ts) = frames_of m ts ! k"
    using ne k by (simp add: last_conv_nth)
  also have "\<dots> = take m (drop (k * m) ts)" using \<open>k < ?fc\<close> by (rule frames_of_nth)
  finally show ?thesis using km assms(1) by simp
qed

lemma frames_of_sum:
  "1 \<le> m \<Longrightarrow> sum_list (map length (frames_of m ts)) = length ts"
  using frames_of_concat[of m ts] by (metis length_concat)


text \<open>
  C1 (amended to lists with at least one tile). For every list of N \<ge> 1 tiles and every
  integer increment I \<ge> 1, \<open>normalizeState\<close> returns a state whose \<open>frameArr\<close> has
  \<lceil>N / I\<rceil> frames, recorded as \<open>curFrameLength\<close>; frame k holds the tiles at positions
  k*I up to (k+1)*I, so the frames are consecutive, do not overlap and concatenate to the
  tile list; their sizes add up to N; every frame but the last has exactly I tiles and the
  last has between 1 and I; \<open>tileDelta\<close> is I*frameCount - N, and \<open>index\<close> and
  \<open>frameIndex\<close> are 0.
\<close>

theorem normalization_partitions_tiles:
  assumes "children e \<noteq> []" and "increment ops = Num (int m)" and "1 \<le> m"
  shows "\<exists>st e'. normalizeState ops e = Some (Inr (st, e')) \<and>
     (let N = length (children e); fc = nat \<lceil>real N / real m\<rceil> in
       curFrameLength st = Num (int fc) \<and> length (frameArr st) = fc \<and>
       concat (frameArr st) = children e \<and> children e' = children e \<and>
       (\<forall>k<fc. frameArr st ! k = take m (drop (k * m) (children e))) \<and>
       (\<forall>k. k + 1 < fc \<longrightarrow> length (frameArr st ! k) = m) \<and>
       0 < length (last (frameArr st)) \<and> length (last (frameArr st)) \<le> m \<and>
       sum_list (map length (frameArr st)) = N \<and>
       tileDelta st = Num (int m * int fc - int N) \<and>
       index st = Num 0 \<and> frameIndex st = Num 0)"
proof -
  from normalizeState_ok[OF assms] obtain st e' where
    r: "normalizeState ops e = Some (Inr (st, e'))"
    and fa: "frameArr st = frames_of m (children e)"
    and fl: "curFrameLength st = Num \<lceil>real (length (children e)) / real m\<rceil>"
    and td: "tileDelta st = Num (int m * \<lceil>real (length (children e)) / real m\<rceil> - int (length (children e)))"
    and ix: "index st = Num 0" "frameIndex st = Num 0"
    and ch: "children e' = children e"
    by blast
  let ?ts = "children e"
  let ?fc = "nat \<lceil>real (length ?ts) / real m\<rceil>"
  have "(- 1::real) < real (length ?ts) / real m"
    by (rule less_le_trans[of _ 0]) simp_all
  then have nn: "0 \<le> \<lceil>real (length ?ts) / real m\<rceil>"
    by (simp only: zero_le_ceiling)
  then have fci: "int ?fc = \<lceil>real (length ?ts) / real m\<rceil>" by simp
  have 1: "curFrameLength st = Num (int ?fc)" using fl fci by simp
  have 2: "length (frameArr st) = ?fc" using fa by simp
  have 3: "concat (frameArr st) = ?ts" using fa frames_of_concat[OF assms(3)] by simp
  have 4: "\<forall>k<?fc. frameArr st ! k = take m (drop (k * m) ?ts)"
    using fa frames_of_nth by metis
  have 5: "\<forall>k. k + 1 < ?fc \<longrightarrow> length (frameArr st ! k) = m"
    using fa frames_of_full[OF assms(3)] by metis
  have 6: "0 < length (last (frameArr st)) \<and> length (last (frameArr st)) \<le> m"
    using fa frames_of_last[OF assms(3,1)] by simp
  have 7: "sum_list (map length (frameArr st)) = length ?ts"
    using fa frames_of_sum[OF assms(3)] by simp
  have 8: "tileDelta st = Num (int m * int ?fc - int (length ?ts))" using td fci by simp
  show ?thesis
    unfolding Let_def using r ch ix 1 2 3 4 5 6 7 8 by blast
qed

theorem normalization_partitions_tiles_witness:
  "children (page (replicate 10 blank_tile)) \<noteq> [] \<and>
   increment (defaults\<lparr>increment := Num 3\<rparr>) = Num (int 3) \<and> (1::nat) \<le> 3 \<and>
   (\<exists>st e'. normalizeState (defaults\<lparr>increment := Num 3\<rparr>) (page (replicate 10 blank_tile)) = Some (Inr (st, e'))
      \<and> curFrameLength st = Num 4 \<and> length (frameArr st) = 4
      \<and> concat (frameArr st) = [0..<10] \<and> tileDelta st = Num 2)"
proof -
  have h: "children (page (replicate 10 blank_tile)) \<noteq> []" by (simp add: page_def)
  have i: "increment (defaults\<lparr>increment := Num 3\<rparr>) = Num (int 3)" by simp
  from normalization_partitions_tiles[OF h i]
  show ?thesis
    by (simp add: Let_def page_def) blast
qed

theorem normalization_empty_counterexample:
  "normalizeState (defaults\<lparr>increment := Num 3\<rparr>) (page []) = Some (Inl TypeError)"
  by (simp add: normalizeState_def page_def Let_def outerWidth_def publish_def)


text \<open>
  C6 (amended). With no tile, \<open>normalizeState\<close> does not complete: measuring the first
  tile reads a property of \<open>undefined\<close> and throws a TypeError, whatever the options. So
  \<open>setup\<close> throws, and there is no state, no navigation call and no button.
\<close>

theorem empty_list_throws:
  "setup_carousel uo [] = Some (Inl TypeError) \<and>
   normalizeState ops (e\<lparr>children := []\<rparr>) = Some (Inl TypeError)"
  by (simp add: setup_carousel_def init_def normalizeState_def page_def Let_def outerWidth_def publish_def)

theorem empty_list_counterexample:
  "setup_carousel \<lparr>user_increment = None, user_incrementMode = None, user_wrapControls = None,
      user_preFrameChange = False, user_postFrameChange = False\<rparr> [] = Some (Inl TypeError)"
  by (simp add: setup_carousel_def init_def normalizeState_def page_def Let_def outerWidth_def publish_def)


section \<open>Transitions\<close>

lemma on_env_simps [simp]:
  "cstate (on_env f c) = cstate c"
  "copts (on_env f c) = copts c"
  "cenv (on_env f c) = f (cenv c)"
  by (simp_all add: on_env_def)

lemma call_hook_simps [simp]:
  "cstate (call_hook p ev c) = cstate c"
  "copts (call_hook p ev c) = copts c"
  "children (cenv (call_hook p ev c)) = children (cenv c)"
  "elems (cenv (call_hook p ev c)) = elems (cenv c)"
  "cacheObj (cenv (call_hook p ev c)) = cacheObj (cenv c)"
  "prevBtn_disabled (cenv (call_hook p ev c)) = prevBtn_disabled (cenv c)"
  "nextBtn_disabled (cenv (call_hook p ev c)) = nextBtn_disabled (cenv c)"
  "focused (cenv (call_hook p ev c)) = focused (cenv c)"
  "carouselClass (cenv (call_hook p ev c)) = carouselClass (cenv c)"
  "events (cenv (call_hook p ev c)) = events (cenv c) @ (if p then [ev] else [])"
  by (simp_all add: call_hook_def)

lemma publish_simps [simp]:
  "children (publish t e) = children e"
  "elems (publish t e) = elems e"
  "cacheObj (publish t e) = cacheObj e"
  "prevBtn_disabled (publish t e) = prevBtn_disabled e"
  "nextBtn_disabled (publish t e) = nextBtn_disabled e"
  "focused (publish t e) = focused e"
  "carouselClass (publish t e) = carouselClass e"
  "events (publish t e) = events e @ [Publish t]"
  by (simp_all add: publish_def)

lemma updateNavigation_simps [simp]:
  "cstate (updateNavigation c) = cstate c"
  "copts (updateNavigation c) = copts c"
  "children (cenv (updateNavigation c)) = children (cenv c)"
  "elems (cenv (updateNavigation c)) = elems (cenv c)"
  "cacheObj (cenv (updateNavigation c)) = cacheObj (cenv c)"
  "focused (cenv (updateNavigation c)) = focused (cenv c)"
  "carouselClass (cenv (updateNavigation c)) = carouselClass (cenv c)"
  "events (cenv (updateNavigation c)) = events (cenv c)"
  "prevBtn_disabled (cenv (updateNavigation c)) = js_seq (index (cstate c)) (Num 0)"
  "nextBtn_disabled (cenv (updateNavigation c)) =
     js_ge (js_add (index (cstate c)) (increment (copts c))) (curTileLength (cstate c))"
  by (simp_all add: updateNavigation_def Let_def)

lemma cache_get_cong: "cacheObj e = cacheObj e' \<Longrightarrow> cache_get k e = cache_get k e'"
  by (simp add: cache_get_def)

lemma toggleAria_plain: "toggleAria (SVal items) operation None e = Inr (toggle_env items operation e)"
  by (simp add: toggleAria_SVal toggle_env_def)

lemma lift_toggle [simp]:
  "lift_env (toggleAria (SVal items) operation None) c = (None, on_env (\<lambda>_. toggle_env items operation (cenv c)) c)"
  by (simp add: lift_env_def toggleAria_plain)

lemma lift_toggle_undef [simp]:
  "lift_env (toggleAria SUndefined operation None) c = (Some TypeError, c)"
  by (simp add: lift_env_def toggleAria_def)

lemma lift_toggle_false [simp]:
  "lift_env (toggleAria SFalse operation None) c = (None, on_env (\<lambda>_. cache_set ''hasAriaInited'' True (cenv c)) c)"
  by (simp add: lift_env_def toggleAria_def)

lemma and_then_simps [simp]:
  "and_then (None, c) f = f c"
  "and_then (Some err, c) f = (Some err, c)"
  by (simp_all add: and_then_def)

lemma toggle_env_simps [simp]:
  "children (toggle_env items operation e) = children e"
  "events (toggle_env items operation e) = events e"
  "prevBtn_disabled (toggle_env items operation e) = prevBtn_disabled e"
  "nextBtn_disabled (toggle_env items operation e) = nextBtn_disabled e"
  "carouselClass (toggle_env items operation e) = carouselClass e"
  "focused (toggle_env items operation e) = focused e"
  "length (elems (toggle_env items operation e)) = length (elems e)"
  by (simp_all add: toggle_env_def)

lemma animate_cstate [simp]: "cstate (snd (animate c)) = cstate c"
  by (cases "curFrame (cstate c)"; cases "curTile (cstate c)")
     (simp_all add: animate_def focus_def Let_def)

lemma animate_copts [simp]: "copts (snd (animate c)) = copts c"
  by (cases "curFrame (cstate c)"; cases "curTile (cstate c)")
     (simp_all add: animate_def focus_def Let_def)

lemma animate_children [simp]: "children (cenv (snd (animate c))) = children (cenv c)"
  by (cases "curFrame (cstate c)"; cases "curTile (cstate c)")
     (simp_all add: animate_def focus_def Let_def)

lemma animate_buttons:
  "prevBtn_disabled (cenv (snd (animate c))) = js_seq (index (cstate c)) (Num 0)"
  "nextBtn_disabled (cenv (snd (animate c))) =
     js_ge (js_add (index (cstate c)) (increment (copts c))) (curTileLength (cstate c))"
  by (cases "curFrame (cstate c)"; cases "curTile (cstate c)";
      simp add: animate_def focus_def Let_def)+

lemma animate_ok:
  assumes "curTile (cstate c) = SVal r" "curFrame (cstate c) = SVal fr"
  shows "fst (animate c) = None"
    and "events (cenv (snd (animate c))) = events (cenv c) @ animate_events (copts c) (cstate c)"
    and "focused (cenv (snd (animate c))) = Some r"
  using assms
  by (simp_all add: animate_def focus_def Let_def animate_events_def)

lemma animate_throws:
  assumes "\<And>r. curTile (cstate c) \<noteq> SVal r"
  shows "fst (animate c) = Some TypeError"
  using assms
  by (cases "curFrame (cstate c)"; cases "curTile (cstate c)")
     (auto simp: animate_def focus_def Let_def)

lemma updateState_cstate: "cstate (snd (updateState idx0 a c)) = committed idx0 c"
  by (simp add: updateState_def committed_def Let_def)

lemma updateState_copts [simp]: "copts (snd (updateState idx0 a c)) = copts c"
  by (simp add: updateState_def Let_def)

lemma updateState_children [simp]: "children (cenv (snd (updateState idx0 a c))) = children (cenv c)"
  by (simp add: updateState_def Let_def)

lemma updateState_animate:
  "updateState idx0 True c = animate (c\<lparr>cstate := committed idx0 c\<rparr>)"
  by (simp add: updateState_def committed_def Let_def)

lemma committed_on_env [simp]:
  "children (f (cenv c)) = children (cenv c) \<Longrightarrow> committed idx0 (on_env f c) = committed idx0 c"
  by (simp add: committed_def updateState_def Let_def)

lemma tileDelta_range:
  assumes "1 \<le> (m::nat)"
  shows "0 \<le> int m * \<lceil>real N / real m\<rceil> - int N" 
    and "int m * \<lceil>real N / real m\<rceil> - int N < int m"
proof -
  let ?c = "\<lceil>real N / real m\<rceil>"
  have m0: "0 < real m" using assms by simp
  have "real N / real m \<le> of_int ?c" by (rule le_of_int_ceiling)
  with pos_divide_le_eq[OF m0, of "real N" "of_int ?c"]
  have "real N \<le> of_int ?c * real m" by blast
  then have "real N \<le> real_of_int (int m * ?c)" by (simp add: mult.commute)
  then have "int N \<le> int m * ?c" by linarith
  then show "0 \<le> int m * ?c - int N" by simp
  have "of_int ?c - 1 < real N / real m" using ceiling_correct[of "real N / real m"] by blast
  with pos_less_divide_eq[OF m0, of "of_int ?c - 1" "real N"]
  have "(of_int ?c - 1) * real m < real N" by blast
  then have "real_of_int (int m * ?c) - real m < real N" by (simp add: algebra_simps)
  then have "int m * ?c < int N + int m" by linarith
  then show "int m * ?c - int N < int m" by simp
qed

lemma clamp_js:
  "clamp_index (Num y) (Num (int N)) (Num (int m)) = Num (clamp N m y)"
  by (simp add: clamp_index_def clamp_def js_gt_def js_sub_def)

lemma committed_fields:
  assumes "configured N m c"
  shows "index (committed (Num y) c) = Num (clamp N m y)"
    and "curTileLength (committed (Num y) c) = Num (int N)"
    and "curFrameLength (committed (Num y) c) = curFrameLength (cstate c)"
    and "tileDelta (committed (Num y) c) = tileDelta (cstate c)"
    and "prevIndex (committed (Num y) c) = SVal (index (cstate c))"
    and "prevTile (committed (Num y) c) = curTile (cstate c)"
    and "prevFrame (committed (Num y) c) = curFrame (cstate c)"
    and "curFrame (committed (Num y) c) = SVal (js_slice (children (cenv c)) (Num (clamp N m y)) (Num (int m + clamp N m y)))"
    and "frameIndex (committed (Num y) c) = Num \<lceil>real_of_int (clamp N m y) / real m\<rceil>"
  using assms js_ceil_div_Num[of "int m" "clamp N m y"]
  by (simp_all add: committed_def updateState_def Let_def configured_def clamp_js
      del: js_ceil_div.simps)

lemma committed_curTile:
  assumes "configured N m c"
  shows "curTile (committed (Num y) c) =
          slot_of (js_nth (children (cenv c))
            (Num (if clamp N m y = int N - int m \<and> 0 < int m * \<lceil>real N / real m\<rceil> - int N \<and> incrementMode (copts c) = ''frame''
                  then clamp N m y + (int m * \<lceil>real N / real m\<rceil> - int N) else clamp N m y)))"
proof -
  let ?d = "int m * \<lceil>real N / real m\<rceil> - int N"
  have d: "0 \<le> ?d" using assms tileDelta_range(1)[of m N] by (simp add: configured_def)
  then have t: "js_truthy (Num ?d) = (0 < ?d)" by auto
  have s: "js_seq (Num (clamp N m y)) (js_sub (Num (int N)) (Num (int m))) = (clamp N m y = int N - int m)"
    by (simp add: js_seq_def js_sub_def)
  show ?thesis
    using assms
    by (simp add: committed_def updateState_def Let_def configured_def clamp_js t s
      del: js_truthy.simps js_nth.simps)
qed

subsection \<open>The four calls\<close>

lemma and_then_tail:
  "fst (and_then r (\<lambda>c. (None, on_env g c))) = fst r"
  "cstate (snd (and_then r (\<lambda>c. (None, on_env g c)))) = cstate (snd r)"
  "copts (snd (and_then r (\<lambda>c. (None, on_env g c)))) = copts (snd r)"
  by (cases r; cases "fst r"; simp)+

lemma and_then_tail_env:
  "fst r = None \<Longrightarrow> cenv (snd (and_then r (\<lambda>c. (None, on_env g c)))) = g (cenv (snd r))"
  "fst r \<noteq> None \<Longrightarrow> cenv (snd (and_then r (\<lambda>c. (None, on_env g c)))) = cenv (snd r)"
  by (cases r; cases "fst r"; simp)+

lemma nextFrame_cstate: "cstate (snd (nextFrame c)) = committed (step_next c) c"
  by (simp add: nextFrame_def Let_def and_then_tail updateState_cstate step_next_def)

lemma prevFrame_cstate: "cstate (snd (prevFrame_method c)) = committed (step_prev c) c"
  by (simp add: prevFrame_method_def Let_def and_then_tail updateState_cstate step_prev_def)

lemma reset_cstate: "cstate (snd (reset c)) = committed (Num 0) c"
  by (simp add: reset_def updateState_cstate)

lemma nav_copts [simp]:
  "copts (snd (nextFrame c)) = copts c"
  "copts (snd (prevFrame_method c)) = copts c"
  "copts (snd (reset c)) = copts c"
  "copts (snd (jumpToFrame v c)) = copts c"
  by (simp_all add: nextFrame_def prevFrame_method_def reset_def jumpToFrame_def Let_def and_then_tail)

lemma and_then_children:
  "children (cenv (snd (and_then r (\<lambda>c. (None, on_env (publish t) c))))) = children (cenv (snd r))"
  by (cases r; cases "fst r"; simp)

lemma nav_children [simp]:
  "children (cenv (snd (nextFrame c))) = children (cenv c)"
  "children (cenv (snd (prevFrame_method c))) = children (cenv c)"
  "children (cenv (snd (reset c))) = children (cenv c)"
  "children (cenv (snd (jumpToFrame v c))) = children (cenv c)"
  by (simp_all add: nextFrame_def prevFrame_method_def reset_def jumpToFrame_def Let_def and_then_children)

lemma buildNavigation_simps [simp]:
  "cstate (buildNavigation c) = cstate c"
  "copts (buildNavigation c) = copts c"
  "children (cenv (buildNavigation c)) = children (cenv c)"
  "elems (cenv (buildNavigation c)) = elems (cenv c)"
  "cacheObj (cenv (buildNavigation c)) = cacheObj (cenv c)"
  "prevBtn_disabled (cenv (buildNavigation c)) =
     (js_le (curTileLength (cstate c)) (increment (copts c)) \<or> js_seq (index (cstate c)) (Num 0))"
  "nextBtn_disabled (cenv (buildNavigation c)) = js_le (curTileLength (cstate c)) (increment (copts c))"
  by (simp_all add: buildNavigation_def Let_def)

lemma setup_ok:
  assumes ne: "tiles \<noteq> []"
    and inc: "(case user_increment uo of None \<Rightarrow> Num 1 | Some v \<Rightarrow> parseInt v) = Num (int m)"
    and m: "1 \<le> m"
  shows "\<exists>c. setup_carousel uo tiles = Some (Inr c) \<and> ready uo tiles = c \<and>
      configured (length tiles) m c \<and>
      index (cstate c) = Num 0 \<and>
      children (cenv c) = [0..<length tiles] \<and>
      incrementMode (copts c) = (case user_incrementMode uo of None \<Rightarrow> ''frame'' | Some x \<Rightarrow> x) \<and>
      preFrameChange (copts c) = user_preFrameChange uo \<and>
      postFrameChange (copts c) = user_postFrameChange uo \<and>
      curTile (cstate c) = SVal 0 \<and>
      curFrame (cstate c) = SVal (take m [0..<length tiles]) \<and>
      frameArr (cstate c) = frames_of m [0..<length tiles] \<and>
      prevIndex (cstate c) = SFalse \<and> prevTile (cstate c) = SFalse \<and>
      prevBtn_disabled (cenv c) \<and>
      nextBtn_disabled (cenv c) = (length tiles \<le> m)"
proof -
  let ?ops = "\<lparr>increment = (case user_increment uo of None \<Rightarrow> increment defaults | Some v \<Rightarrow> parseInt v),
                 incrementMode = (case user_incrementMode uo of None \<Rightarrow> incrementMode defaults | Some m \<Rightarrow> m),
                 wrapControls = (case user_wrapControls uo of None \<Rightarrow> wrapControls defaults | Some w \<Rightarrow> w),
                 preFrameChange = user_preFrameChange uo,
                 postFrameChange = user_postFrameChange uo\<rparr>"
  let ?e = "publish ''/init/before'' (publish ''/setup/after'' ((publish ''/setup/before'' (page tiles))\<lparr>cacheObj := []\<rparr>))"
  have ch: "children ?e = [0..<length tiles]" by (simp add: page_def)
  then have ne': "children ?e \<noteq> []" using ne by simp
  have inc': "increment ?ops = Num (int m)" using inc by (simp add: defaults_def split: option.splits)
  from normalizeState_ok[OF ne' inc' m] obtain st e' where
    r: "normalizeState ?ops ?e = Some (Inr (st, e'))"
    and f: "frameArr st = frames_of m (children ?e)"
      "curFrameLength st = Num \<lceil>real (length (children ?e)) / real m\<rceil>"
      "curTileLength st = Num (int (length (children ?e)))"
      "tileDelta st = Num (int m * \<lceil>real (length (children ?e)) / real m\<rceil> - int (length (children ?e)))"
      "index st = Num 0" "prevIndex st = SFalse" "prevTile st = SFalse"
      "curTile st = SVal (hd (children ?e))"
      "curFrame st = SVal (take m (children ?e))" "children e' = children ?e"
    by blast
  have hd0: "hd [0..<length tiles] = 0" using ne by (simp add: upt_conv_Cons)
  have s: "setup_carousel uo tiles =
     Some (Inr ((buildNavigation \<lparr>copts = ?ops, cstate = st, cenv = e'\<rparr>)
                  \<lparr>cenv := publish ''/init/after'' (cenv (buildNavigation \<lparr>copts = ?ops, cstate = st, cenv = e'\<rparr>))\<rparr>))"
    using r by (simp add: setup_carousel_def init_def Let_def)
  show ?thesis
    unfolding s ready_def
    using f ch hd0 ne m inc'
    by (auto simp: configured_def js_le_def js_seq_def defaults_def Suc_le_eq split: option.splits)
qed

lemma parseInt_cases: "parseInt v = NaN \<or> (\<exists>f. parseInt v = Num f)"
proof (cases v)
  case (VNumber n)
  then show ?thesis by (cases n) simp_all
qed (simp_all add: parseInt_string_def Let_def)

lemma jumpToFrame_Num:
  assumes "increment (copts c) = Num (int m)" "parseInt v = Num f"
  shows "jumpToFrame v c =
     (if js_seq (Num (max 0 (f * int m - int m))) (index (cstate c)) \<or> js_gt (Num f) (curFrameLength (cstate c))
      then (None, c) else updateState (Num (max 0 (f * int m - int m))) True c)"
  using assms by (simp add: jumpToFrame_def Let_def js_sub_def max_def)

lemma step_next_Num:
  "increment (copts c) = Num (int m) \<Longrightarrow> index (cstate c) = Num x \<Longrightarrow>
   step_next c = Num (x + (if incrementMode (copts c) = ''tile'' then 1 else int m))"
  by (simp add: step_next_def)

lemma step_prev_Num:
  "increment (copts c) = Num (int m) \<Longrightarrow> index (cstate c) = Num x \<Longrightarrow>
   step_prev c = Num (x - (if incrementMode (copts c) = ''tile'' then 1 else int m))"
  by (simp add: step_prev_def js_sub_def)

lemma run_commits:
  assumes "configured N m c" "index (cstate c) = Num x" "int_call k"
  shows "run k c = (None, c) \<or>
         (\<exists>y. cstate (snd (run k c)) = committed (Num y) c)"
proof (cases k)
  case Next
  then show ?thesis using assms step_next_Num[of c m x]
    by (auto simp: nextFrame_cstate configured_def)
next
  case Prev
  then show ?thesis using assms step_prev_Num[of c m x]
    by (auto simp: prevFrame_cstate configured_def)
next
  case (Jump v)
  with assms(3) obtain f where f: "parseInt v = Num f"
    using parseInt_cases[of v] by (auto simp: int_call_def)
  have i: "increment (copts c) = Num (int m)" using assms(1) by (simp add: configured_def)
  show ?thesis unfolding Jump run.simps jumpToFrame_Num[OF i f]
    by (auto simp: updateState_cstate)
next
  case Reset
  then show ?thesis by (auto simp: reset_cstate)
qed

lemma run_copts [simp]: "copts (snd (run k c)) = copts c"
  by (cases k) simp_all

lemma run_children [simp]: "children (cenv (snd (run k c))) = children (cenv c)"
  by (cases k) simp_all

lemma configured_committed:
  assumes "configured N m c" "cstate c' = committed (Num y) c" "copts c' = copts c"
    "children (cenv c') = children (cenv c)"
  shows "configured N m c'"
  using assms committed_fields(2,3,4)[OF assms(1), of y]
  by (simp add: configured_def)

lemma run_configured:
  assumes "configured N m c" "index (cstate c) = Num x" "int_call k"
  shows "configured N m (snd (run k c)) \<and> (\<exists>x'. index (cstate (snd (run k c))) = Num x')"
  using run_commits[OF assms] assms(1,2) configured_committed[OF assms(1), of "snd (run k c)"]
    committed_fields(1)[OF assms(1)]
  by auto

lemma curTile_in_range:
  assumes c: "configured N m c" and mN: "m \<le> N"
  shows "\<exists>r \<in> set (children (cenv c)). curTile (committed (Num y) c) = SVal r"
proof -
  let ?d = "int m * \<lceil>real N / real m\<rceil> - int N"
  let ?x = "clamp N m y"
  let ?p = "if ?x = int N - int m \<and> 0 < ?d \<and> incrementMode (copts c) = ''frame'' then ?x + ?d else ?x"
  have m1: "1 \<le> m" and len: "length (children (cenv c)) = N" using c by (simp_all add: configured_def)
  have d: "0 \<le> ?d" "?d < int m" using tileDelta_range[OF m1, of N] by simp_all
  have x: "0 \<le> ?x" "?x \<le> int N - int m" using mN by (auto simp: clamp_def)
  have p: "0 \<le> ?p \<and> ?p < int N" using d x m1 by auto
  then have "js_nth (children (cenv c)) (Num ?p) = Some (children (cenv c) ! nat ?p)"
    using len by simp
  moreover have "children (cenv c) ! nat ?p \<in> set (children (cenv c))"
    using p len by (simp add: nat_less_iff)
  ultimately show ?thesis
    unfolding committed_curTile[OF c] by (simp add: slot_of_def del: js_nth.simps)
qed

lemma nextFrame_index:
  assumes "configured N m c" "index (cstate c) = Num x"
  shows "index (cstate (snd (nextFrame c))) =
           Num (clamp N m (x + (if incrementMode (copts c) = ''tile'' then 1 else int m)))"
    and "configured N m (snd (nextFrame c))"
proof -
  have i: "increment (copts c) = Num (int m)" using assms(1) by (simp add: configured_def)
  have s: "cstate (snd (nextFrame c)) =
      committed (Num (x + (if incrementMode (copts c) = ''tile'' then 1 else int m))) c"
    unfolding nextFrame_cstate step_next_Num[OF i assms(2)] ..
  show "index (cstate (snd (nextFrame c))) =
           Num (clamp N m (x + (if incrementMode (copts c) = ''tile'' then 1 else int m)))"
    unfolding s by (rule committed_fields(1)[OF assms(1)])
  show "configured N m (snd (nextFrame c))"
    by (rule configured_committed[OF assms(1) s]) simp_all
qed

lemma nextFrame_curTile:
  assumes "configured N m c" "index (cstate c) = Num x"
  shows "curTile (cstate (snd (nextFrame c))) =
     curTile (committed (Num (x + (if incrementMode (copts c) = ''tile'' then 1 else int m))) c)"
proof -
  have i: "increment (copts c) = Num (int m)" using assms(1) by (simp add: configured_def)
  show ?thesis unfolding nextFrame_cstate step_next_Num[OF i assms(2)] ..
qed

lemma ceil_10_3: "\<lceil>real 10 / real 3\<rceil> = 4" "\<lceil>real 2 / real 3\<rceil> = 1" by simp_all

lemma c10_facts:
  "setup_carousel (user_opts (VNumber (Num 3)) ''frame'') (replicate 10 blank_tile) = Some (Inr c10)"
  "configured 10 3 c10" "index (cstate c10) = Num 0" "children (cenv c10) = [0..<10]"
  "incrementMode (copts c10) = ''frame''" "frameArr (cstate c10) = frames_of 3 [0..<10]"
  using setup_ok[of "replicate 10 blank_tile" "user_opts (VNumber (Num 3)) ''frame''" 3]
  by (auto simp: c10_def user_opts_def)

lemma frames_10_3: "map length (frames_of 3 [0..<10]) = [3, 3, 3, 1]"
  by (simp add: frames_of_def upt_rec)

lemma scenario_10_3:
  "setup_carousel (user_opts (VNumber (Num 3)) ''frame'') (replicate 10 blank_tile) = Some (Inr c10) \<and>
   curFrameLength (cstate c10) = Num 4 \<and>
   map length (frameArr (cstate c10)) = [3, 3, 3, 1] \<and>
   tileDelta (cstate c10) = Num 2 \<and>
   index (cstate c10) = Num 0 \<and>
   children (cenv c10) = [0..<10] \<and>
   index (cstate (snd (nextFrame c10))) = Num 3 \<and>
   index (cstate (snd (nextFrame (snd (nextFrame c10))))) = Num 6 \<and>
   index (cstate (snd (nextFrame (snd (nextFrame (snd (nextFrame c10))))))) = Num 7 \<and>
   index (cstate (snd (nextFrame (snd (nextFrame (snd (nextFrame (snd (nextFrame c10))))))))) = Num 7 \<and>
   curTile (cstate (snd (nextFrame (snd (nextFrame (snd (nextFrame (snd (nextFrame c10))))))))) = SVal 9"
proof -
  note f = c10_facts
  let ?c1 = "snd (nextFrame c10)"
  let ?c2 = "snd (nextFrame ?c1)"
  let ?c3 = "snd (nextFrame ?c2)"
  let ?c4 = "snd (nextFrame ?c3)"
  have m: "incrementMode (copts ?c1) = ''frame''" "incrementMode (copts ?c2) = ''frame''"
    "incrementMode (copts ?c3) = ''frame''"
    using f(5) by simp_all
  have ch: "children (cenv ?c3) = [0..<10]" using f(4) by simp
  have i1: "index (cstate ?c1) = Num 3" and g1: "configured 10 3 ?c1"
    using nextFrame_index[OF f(2) f(3)] f(5) by (simp_all add: clamp_def)
  have i2: "index (cstate ?c2) = Num 6" and g2: "configured 10 3 ?c2"
    using nextFrame_index[OF g1 i1] m by (simp_all add: clamp_def)
  have i3: "index (cstate ?c3) = Num 7" and g3: "configured 10 3 ?c3"
    using nextFrame_index[OF g2 i2] m by (simp_all add: clamp_def)
  have i4: "index (cstate ?c4) = Num 7"
    using nextFrame_index[OF g3 i3] m by (simp_all add: clamp_def)
  have t4: "curTile (cstate ?c4) = SVal 9"
    unfolding nextFrame_curTile[OF g3 i3] committed_curTile[OF g3]
    using m ch by (simp add: clamp_def slot_of_def)
  have d: "tileDelta (cstate c10) = Num 2" "curFrameLength (cstate c10) = Num 4"
    using f(2) by (simp_all add: configured_def)
  show ?thesis using f(1,3,4,6) d i1 i2 i3 i4 t4 frames_10_3 by simp
qed

text \<open>
  C3. Let an instance have N tiles, the integer increment m, and an integer index. After
  every call that commits (\<open>next\<close>, \<open>prev\<close>, \<open>reset\<close>, and \<open>jumpToFrame\<close> of an integer
  unless its guard makes it a no-op), \<open>curTile\<close> is the tile at position
  \<open>index + tileDelta\<close> when the mode is \<open>frame\<close>, the committed index equals N - m and
  \<open>tileDelta > 0\<close>, and the tile at position \<open>index\<close> otherwise; for m \<le> N that position
  holds a tile. For ten tiles and an increment of 3 in frame mode the frame count is 4, the
  frame sizes are 3, 3, 3, 1, \<open>tileDelta\<close> is 2, four calls of \<open>next\<close> from index 0 give the
  indices 3, 6, 7, 7, and after the fourth \<open>curTile\<close> is the tile at position 9 (the
  children are the references 0 to 9 in order).
\<close>

theorem curTile_selection:
  assumes "configured N m c" and "index (cstate c) = Num x" and "int_call k"
  shows "(run k c = (None, c) \<or>
          (\<exists>x'. index (cstate (snd (run k c))) = Num x' \<and>
             tileDelta (cstate (snd (run k c))) = Num (int m * \<lceil>real N / real m\<rceil> - int N) \<and>
             curTile (cstate (snd (run k c))) =
               slot_of (js_nth (children (cenv c))
                 (Num (if x' = int N - int m \<and> 0 < int m * \<lceil>real N / real m\<rceil> - int N \<and>
                          incrementMode (copts c) = ''frame''
                       then x' + (int m * \<lceil>real N / real m\<rceil> - int N) else x'))) \<and>
             (m \<le> N \<longrightarrow> (\<exists>r \<in> set (children (cenv c)). curTile (cstate (snd (run k c))) = SVal r)))) \<and>
         (setup_carousel (user_opts (VNumber (Num 3)) ''frame'') (replicate 10 blank_tile) = Some (Inr c10) \<and>
          curFrameLength (cstate c10) = Num 4 \<and>
          map length (frameArr (cstate c10)) = [3, 3, 3, 1] \<and>
          tileDelta (cstate c10) = Num 2 \<and>
          index (cstate c10) = Num 0 \<and>
          children (cenv c10) = [0..<10] \<and>
          index (cstate (snd (nextFrame c10))) = Num 3 \<and>
          index (cstate (snd (nextFrame (snd (nextFrame c10))))) = Num 6 \<and>
          index (cstate (snd (nextFrame (snd (nextFrame (snd (nextFrame c10))))))) = Num 7 \<and>
          index (cstate (snd (nextFrame (snd (nextFrame (snd (nextFrame (snd (nextFrame c10))))))))) = Num 7 \<and>
          curTile (cstate (snd (nextFrame (snd (nextFrame (snd (nextFrame (snd (nextFrame c10))))))))) = SVal 9)"
proof -
  from run_commits[OF assms]
  have "run k c = (None, c) \<or>
          (\<exists>x'. index (cstate (snd (run k c))) = Num x' \<and>
             tileDelta (cstate (snd (run k c))) = Num (int m * \<lceil>real N / real m\<rceil> - int N) \<and>
             curTile (cstate (snd (run k c))) =
               slot_of (js_nth (children (cenv c))
                 (Num (if x' = int N - int m \<and> 0 < int m * \<lceil>real N / real m\<rceil> - int N \<and>
                          incrementMode (copts c) = ''frame''
                       then x' + (int m * \<lceil>real N / real m\<rceil> - int N) else x'))) \<and>
             (m \<le> N \<longrightarrow> (\<exists>r \<in> set (children (cenv c)). curTile (cstate (snd (run k c))) = SVal r)))"
  proof
    assume "run k c = (None, c)"
    then show ?thesis by blast
  next
    assume "\<exists>y. cstate (snd (run k c)) = committed (Num y) c"
    then obtain y where y: "cstate (snd (run k c)) = committed (Num y) c" by blast
    have td: "tileDelta (cstate c) = Num (int m * \<lceil>real N / real m\<rceil> - int N)"
      using assms(1) by (simp add: configured_def)
    show ?thesis
      unfolding y
      using committed_fields(1,4)[OF assms(1), of y] committed_curTile[OF assms(1), of y]
        curTile_in_range[OF assms(1), of y] td
      by auto
  qed
  then show ?thesis using scenario_10_3 by blast
qed

theorem curTile_selection_witness:
  "configured 10 3 c10 \<and> index (cstate c10) = Num 0 \<and> int_call Next \<and>
   index (cstate (snd (run Next (snd (run Next (snd (run Next (snd (run Next c10)))))))))= Num 7 \<and>
   curTile (cstate (snd (run Next (snd (run Next (snd (run Next (snd (run Next c10))))))))) = SVal 9"
  using curTile_selection[of 10 3 c10 0 Next] c10_facts(2,3)
  by (simp add: int_call_def)

lemma and_then_buttons:
  "prevBtn_disabled (cenv (snd (and_then r (\<lambda>c. (None, on_env (publish t) c))))) = prevBtn_disabled (cenv (snd r))"
  "nextBtn_disabled (cenv (snd (and_then r (\<lambda>c. (None, on_env (publish t) c))))) = nextBtn_disabled (cenv (snd r))"
  by (cases r; cases "fst r"; simp)+

lemma updateState_buttons:
  "prevBtn_disabled (cenv (snd (updateState idx True c))) = js_seq (index (committed idx c)) (Num 0)"
  "nextBtn_disabled (cenv (snd (updateState idx True c))) =
     js_ge (js_add (index (committed idx c)) (increment (copts c))) (curTileLength (committed idx c))"
  by (simp_all add: updateState_animate animate_buttons)

lemma nextFrame_buttons:
  "prevBtn_disabled (cenv (snd (nextFrame c))) = js_seq (index (cstate (snd (nextFrame c)))) (Num 0)"
  "nextBtn_disabled (cenv (snd (nextFrame c))) =
     js_ge (js_add (index (cstate (snd (nextFrame c)))) (increment (copts c))) (curTileLength (cstate (snd (nextFrame c))))"
  unfolding nextFrame_cstate
  by (simp_all add: nextFrame_def Let_def and_then_buttons updateState_buttons step_next_def)

lemma prevFrame_buttons:
  "prevBtn_disabled (cenv (snd (prevFrame_method c))) = js_seq (index (cstate (snd (prevFrame_method c)))) (Num 0)"
  "nextBtn_disabled (cenv (snd (prevFrame_method c))) =
     js_ge (js_add (index (cstate (snd (prevFrame_method c)))) (increment (copts c))) (curTileLength (cstate (snd (prevFrame_method c))))"
  unfolding prevFrame_cstate
  by (simp_all add: prevFrame_method_def Let_def and_then_buttons updateState_buttons step_prev_def)

lemma updateState_ok:
  assumes "curTile (committed idx c) = SVal r" "curFrame (committed idx c) = SVal fr"
  shows "fst (updateState idx True c) = None"
    and "events (cenv (snd (updateState idx True c))) = events (cenv c) @ animate_events (copts c) (committed idx c)"
  using assms animate_ok(1,2)[of "c\<lparr>cstate := committed idx c\<rparr>" r fr]
  by (simp_all add: updateState_animate)

lemma c2_facts:
  "setup_carousel (user_opts (VNumber (Num 3)) ''frame'') (replicate 2 blank_tile) = Some (Inr c2)"
  "configured 2 3 c2" "index (cstate c2) = Num 0" "children (cenv c2) = [0..<2]"
  "incrementMode (copts c2) = ''frame''" "prevBtn_disabled (cenv c2)" "nextBtn_disabled (cenv c2)"
  using setup_ok[of "replicate 2 blank_tile" "user_opts (VNumber (Num 3)) ''frame''" 3]
  by (auto simp: c2_def user_opts_def)

text \<open>
  C2 at a failing input. With two tiles and an increment of 3, \<open>next\<close> from index 0 gives
  the requested index 3, which exceeds N - m = -1 and is replaced by -1; the lower
  bound is not looked at any more. The committed index -1 is outside [0, max(0, N - m)].
\<close>

theorem short_list_next_leaves_bounds:
  "setup_carousel (user_opts (VNumber (Num 3)) ''frame'') (replicate 2 blank_tile) = Some (Inr c2) \<and>
   index (cstate c2) = Num 0 \<and>
   index (cstate (snd (nextFrame c2))) = Num (- 1)"
  using c2_facts(1,3,5) nextFrame_index(1)[OF c2_facts(2,3)]
  by (simp add: clamp_def)

text \<open>
  C8 at a failing input. With two tiles and an increment of 3 both buttons are disabled
  when the navigation is built; after one \<open>next\<close> the index is -1, so
  \<open>updateNavigation\<close> enables the previous button.
\<close>

theorem short_list_next_enables_prev:
  "setup_carousel (user_opts (VNumber (Num 3)) ''frame'') (replicate 2 blank_tile) = Some (Inr c2) \<and>
   js_le (curTileLength (cstate c2)) (increment (copts c2)) \<and>
   prevBtn_disabled (cenv c2) \<and> nextBtn_disabled (cenv c2) \<and>
   \<not> prevBtn_disabled (cenv (snd (nextFrame c2)))"
proof -
  have "index (cstate (snd (nextFrame c2))) = Num (- 1)"
    using c2_facts(5) nextFrame_index(1)[OF c2_facts(2,3)] by (simp add: clamp_def)
  then have "\<not> prevBtn_disabled (cenv (snd (nextFrame c2)))"
    by (simp add: nextFrame_buttons js_seq_def)
  moreover have "js_le (curTileLength (cstate c2)) (increment (copts c2))"
    using c2_facts(2) by (simp add: configured_def js_le_def)
  ultimately show ?thesis using c2_facts(1,6,7) by blast
qed

subsection \<open>Jumping to a frame and resetting\<close>

lemma committed_ok:
  assumes c: "configured N m c" and mN: "m \<le> N"
  shows "fst (updateState (Num y) True c) = None"
    and "events (cenv (snd (updateState (Num y) True c))) =
           events (cenv c) @ animate_events (copts c) (committed (Num y) c)"
proof -
  from curTile_in_range[OF c mN, of y] obtain r where r: "curTile (committed (Num y) c) = SVal r"
    by blast
  note fr = committed_fields(8)[OF c, of y]
  show "fst (updateState (Num y) True c) = None" by (rule updateState_ok(1)[OF r fr])
  show "events (cenv (snd (updateState (Num y) True c))) =
           events (cenv c) @ animate_events (copts c) (committed (Num y) c)"
    by (rule updateState_ok(2)[OF r fr])
qed


lemma animate_events_not_Nil [simp]: "animate_events ops st \<noteq> []"
  by (simp add: animate_events_def)

lemma ceil_ge_1:
  assumes "1 \<le> (m::nat)" "1 \<le> (N::nat)"
  shows "1 \<le> \<lceil>real N / real m\<rceil>"
proof -
  have "0 * m < N" using assms by simp
  then have "0 < nat \<lceil>real N / real m\<rceil>" by (simp only: lt_ceil_iff[OF assms(1)])
  then show ?thesis by linarith
qed




lemma js_lt_NaN [simp]: "js_lt a NaN = False"
  by (cases a) simp_all

lemma js_add_NaN [simp]: "js_add a NaN = NaN"
  by (cases a) simp_all

lemma js_mul_NaN [simp]: "js_mul a NaN = NaN"
  by (cases a) simp_all

lemma js_sub_NaN [simp]: "js_sub NaN b = NaN"
  by (simp add: js_sub_def)

lemma js_seq_NaN [simp]: "js_seq NaN b = False"
  by (simp add: js_seq_def)

lemma js_gt_NaN [simp]: "js_gt NaN b = False"
  by (simp add: js_gt_def)

lemma clamp_index_NaN [simp]: "clamp_index NaN len inc = NaN"
  by (simp add: clamp_index_def js_gt_def)

lemma committed_NaN:
  "index (committed NaN c) = NaN" "curTile (committed NaN c) = SUndefined"
  by (simp_all add: committed_def updateState_def Let_def slot_of_def)

text \<open>
  C10. For every instance and every argument that \<open>parseInt\<close> turns into NaN (such as
  \<open>undefined\<close> or a string without digits), the guard of \<open>jumpToFrame\<close> does not reject the
  call: \<open>updateState\<close> runs with NaN, the clamp lets NaN through, and the state is
  committed with \<open>index = NaN\<close>, which is not in [0, max(0, N - increment)]. The call then
  throws a TypeError in \<open>animate\<close>, after the commit, because \<open>curTile\<close> is \<open>undefined\<close>.
\<close>

theorem jumpToFrame_NaN:
  assumes "parseInt v = NaN"
  shows "jumpToFrame v c = updateState NaN True c \<and>
         index (cstate (snd (jumpToFrame v c))) = NaN \<and>
         \<not> js_le (Num 0) (index (cstate (snd (jumpToFrame v c)))) \<and>
         \<not> js_le (index (cstate (snd (jumpToFrame v c)))) (js_sub (curTileLength (cstate c)) (increment (copts c))) \<and>
         fst (jumpToFrame v c) = Some TypeError"
proof -
  have j: "jumpToFrame v c = updateState NaN True c"
    using assms by (simp add: jumpToFrame_def Let_def)
  have t: "fst (updateState NaN True c) = Some TypeError"
    unfolding updateState_animate by (rule animate_throws) (simp add: committed_NaN)
  show ?thesis unfolding j using t
    by (simp add: updateState_cstate committed_NaN js_le_def)
qed

theorem jumpToFrame_NaN_witness:
  "parseInt VUndefined = NaN \<and> parseInt (VString ''abc'') = NaN \<and>
   index (cstate (snd (jumpToFrame VUndefined c10))) = NaN \<and>
   index (cstate (snd (jumpToFrame (VString ''abc'') c10))) = NaN \<and>
   fst (jumpToFrame VUndefined c10) = Some TypeError"
proof -
  have u: "parseInt VUndefined = NaN" by simp
  have s: "parseInt (VString ''abc'') = NaN"
    by (simp add: parseInt_string_def Let_def is_ws_def is_digit_def)
  note a = jumpToFrame_NaN[OF u, of c10] and b = jumpToFrame_NaN[OF s, of c10]
  show ?thesis
    by (intro conjI u s a[THEN conjunct2, THEN conjunct1] b[THEN conjunct2, THEN conjunct1]
        a[THEN conjunct2, THEN conjunct2, THEN conjunct2, THEN conjunct2])
qed

lemma c10_prev: "prevIndex (cstate c10) = SFalse"
  using setup_ok[of "replicate 10 blank_tile" "user_opts (VNumber (Num 3)) ''frame''" 3]
  by (auto simp: c10_def user_opts_def)

text \<open>
  C7 (amended). Let an instance have N tiles and an integer increment m with
  1 \<le> m \<le> N, and an integer index x. \<open>reset()\<close> raises nothing and always commits
  \<open>index = 0\<close>, also when the index is 0 already: the previous index is recorded and the
  events of a transition are added to the trace. It is the same call as \<open>jumpToFrame(1)\<close>,
  with the same resulting instance and events, exactly when x is not 0; at index 0
  \<open>jumpToFrame(1)\<close> is a strict no-op and \<open>reset()\<close> is not.
\<close>

theorem reset_commits:
  assumes c: "configured N m c" and mN: "m \<le> N" and x: "index (cstate c) = Num x"
    and v: "parseInt v = Num 1"
  shows "fst (reset c) = None \<and>
         index (cstate (snd (reset c))) = Num 0 \<and>
         prevIndex (cstate (snd (reset c))) = SVal (Num x) \<and>
         events (cenv (snd (reset c))) = events (cenv c) @ animate_events (copts c) (cstate (snd (reset c))) \<and>
         (x \<noteq> 0 \<longrightarrow> jumpToFrame v c = reset c) \<and>
         (x = 0 \<longrightarrow> jumpToFrame v c = (None, c) \<and> reset c \<noteq> (None, c))"
proof -
  have i: "increment (copts c) = Num (int m)" and fl: "curFrameLength (cstate c) = Num \<lceil>real N / real m\<rceil>"
    and m1: "1 \<le> m" and N1: "1 \<le> N"
    using c by (simp_all add: configured_def)
  have ev: "events (cenv (snd (reset c))) = events (cenv c) @ animate_events (copts c) (cstate (snd (reset c)))"
    unfolding reset_cstate unfolding reset_def by (rule committed_ok(2)[OF c mN])
  have ne: "reset c \<noteq> (None, c)"
  proof
    assume "reset c = (None, c)"
    then have "events (cenv (snd (reset c))) = events (cenv c)" by simp
    with ev show False by simp
  qed
  have ngt: "\<not> js_gt (Num 1) (curFrameLength (cstate c))"
    using fl ceil_ge_1[OF m1 N1] by (simp add: js_gt_def)
  have j: "jumpToFrame v c = (if x = 0 then (None, c) else reset c)"
    using jumpToFrame_Num[OF i v] ngt x by (simp add: js_seq_def reset_def)
  have ix: "index (cstate (snd (reset c))) = Num 0"
    unfolding reset_cstate committed_fields(1)[OF c] using mN by (simp add: clamp_def)
  have pi: "prevIndex (cstate (snd (reset c))) = SVal (Num x)"
    unfolding reset_cstate committed_fields(5)[OF c] using x by simp
  have ok: "fst (reset c) = None" unfolding reset_def by (rule committed_ok(1)[OF c mN])
  show ?thesis using ok ix pi ev j ne by simp
qed

theorem reset_commits_witness:
  "configured 10 3 c10 \<and> (3::nat) \<le> 10 \<and> index (cstate c10) = Num 0 \<and> parseInt (VNumber (Num 1)) = Num 1 \<and>
   fst (reset c10) = None \<and> index (cstate (snd (reset c10))) = Num 0 \<and>
   jumpToFrame (VNumber (Num 1)) c10 = (None, c10) \<and> reset c10 \<noteq> (None, c10) \<and>
   configured 10 3 (snd (nextFrame c10)) \<and> index (cstate (snd (nextFrame c10))) = Num 3 \<and>
   jumpToFrame (VNumber (Num 1)) (snd (nextFrame c10)) = reset (snd (nextFrame c10))"
proof -
  have i: "index (cstate (snd (nextFrame c10))) = Num 3"
    using nextFrame_index(1)[OF c10_facts(2,3)] c10_facts(5) by (simp add: clamp_def)
  note g = nextFrame_index(2)[OF c10_facts(2,3)]
  have le: "(3::nat) \<le> 10" by simp
  have p: "parseInt (VNumber (Num 1)) = Num 1" by simp
  from reset_commits[OF c10_facts(2) le c10_facts(3) p] reset_commits[OF g le i p]
  show ?thesis using c10_facts(2,3) i g by simp
qed

theorem reset_at_zero_counterexample:
  "setup_carousel (user_opts (VNumber (Num 3)) ''frame'') (replicate 10 blank_tile) = Some (Inr c10) \<and>
   index (cstate c10) = Num 0 \<and>
   jumpToFrame (VNumber (Num 1)) c10 = (None, c10) \<and>
   prevIndex (cstate c10) = SFalse \<and>
   prevIndex (cstate (snd (reset c10))) = SVal (Num 0) \<and>
   reset c10 \<noteq> jumpToFrame (VNumber (Num 1)) c10"
proof -
  note c = c10_facts(2)
  have i: "increment (copts c10) = Num (int 3)" and fl: "curFrameLength (cstate c10) = Num 4"
    using c by (simp_all add: configured_def)
  have j: "jumpToFrame (VNumber (Num 1)) c10 = (None, c10)"
    using jumpToFrame_Num[OF i, of "VNumber (Num 1)" 1] c10_facts(3) by (simp add: js_seq_def)
  have pi: "prevIndex (cstate (snd (reset c10))) = SVal (Num 0)"
    unfolding reset_cstate committed_fields(5)[OF c] using c10_facts(3) by simp
  have "reset c10 \<noteq> (None, c10)"
  proof
    assume "reset c10 = (None, c10)"
    then have "prevIndex (cstate (snd (reset c10))) = prevIndex (cstate c10)" by simp
    then show False using pi c10_prev by simp
  qed
  then show ?thesis using j pi c10_prev c10_facts(1,3) by simp
qed

section \<open>Setup with an increment that is not a positive integer\<close>



lemma frame_loop_zero:
  assumes "ts \<noteq> []"
  shows "frame_loop (Num 0) ts s acc = None"
proof -
  have "\<not> (inc = Num 0 \<and> ts' \<noteq> [])" if "frame_loop inc ts' s' acc' = Some r" for inc ts' s' acc' r
    by (rule frame_loop.raw_induct[where P = "\<lambda>inc ts sec frames y. \<not> (inc = Num 0 \<and> ts \<noteq> [])", OF _ that])
       (auto split: if_splits)
  then show ?thesis using assms by (cases "frame_loop (Num 0) ts s acc") auto
qed

lemma normalizeState_hangs:
  assumes ne: "children e \<noteq> []" and inc: "increment ops = Num 0"
  shows "normalizeState ops e = None"
proof -
  have first: "js_nth (children e) (Num 0) = Some (hd (children e))" using ne by (simp add: hd_conv_nth)
  show ?thesis
    using first frame_loop_zero[OF ne, of 0 "[]"] inc
    by (simp add: normalizeState_def Let_def outerWidth_def outerHeight_def
        toggleAria_SVal del: js_nth.simps)
qed

lemma setup_unfold:
  "setup_carousel uo tiles =
     init \<lparr>increment = (case user_increment uo of None \<Rightarrow> Num 1 | Some v \<Rightarrow> parseInt v),
            incrementMode = (case user_incrementMode uo of None \<Rightarrow> ''frame'' | Some m \<Rightarrow> m),
            wrapControls = (case user_wrapControls uo of None \<Rightarrow> False | Some w \<Rightarrow> w),
            preFrameChange = user_preFrameChange uo,
            postFrameChange = user_postFrameChange uo\<rparr>
          (publish ''/setup/after'' ((publish ''/setup/before'' (page tiles))\<lparr>cacheObj := []\<rparr>))"
  by (simp add: setup_carousel_def Let_def defaults_def cong: option.case_cong)




section \<open>The markers of the tiles\<close>
























lemma style_loop_cache [simp]: "cacheObj (style_loop k e) = cacheObj e"
  by (induction k arbitrary: e) (simp_all split: list.splits)

lemma cacheObj_toggle_env [simp]:
  "cache_get ''hasAriaInited'' (toggle_env items operation e)"
  by (simp add: toggle_env_def)


lemma cache_get_fields [simp]:
  "cache_get k (e\<lparr>events := ev\<rparr>) = cache_get k e"
  "cache_get k (e\<lparr>carouselClass := cl\<rparr>) = cache_get k e"
  "cache_get k (e\<lparr>focused := fo\<rparr>) = cache_get k e"
  "cache_get k (e\<lparr>prevBtn_disabled := p\<rparr>) = cache_get k e"
  "cache_get k (e\<lparr>nextBtn_disabled := n\<rparr>) = cache_get k e"
  "cache_get k (e\<lparr>elems := es\<rparr>) = cache_get k e"
  "cache_get k (publish t e) = cache_get k e"
  "cache_get k (cenv (call_hook p hk c)) = cache_get k (cenv c)"
  "cache_get k (cenv (updateNavigation c)) = cache_get k (cenv c)"
  by (simp_all add: cache_get_def)









lemma inv_publish [simp]: "tiles_inv tiles (on_env (publish t) c) = tiles_inv tiles c"
  by (simp add: tiles_inv_def)











section \<open>Lists of at least one frame, and the increment zero\<close>

text \<open>
  When the list is at least one frame long (m \<le> N) the clamp does bound the index:
  every call leaves it in [0, N - m], \<open>next\<close> at N - m and \<open>prev\<close> at 0 keep it and
  still run the whole commit, and with exactly one full frame both buttons stay disabled.
  With an increment of zero \<open>setup\<close> never returns.
\<close>

lemma index_stays_in_bounds:
  assumes c: "configured N m c" and mN: "m \<le> N" and x: "index (cstate c) = Num x" "0 \<le> x" "x \<le> int N - int m"
    and k: "int_call k"
  shows "\<exists>x'. index (cstate (snd (run k c))) = Num x' \<and> 0 \<le> x' \<and> x' \<le> int N - int m"
proof -
  from run_commits[OF c x(1) k]
  show ?thesis
  proof
    assume "run k c = (None, c)"
    then show ?thesis using x by simp
  next
    assume "\<exists>y. cstate (snd (run k c)) = committed (Num y) c"
    then obtain y where "cstate (snd (run k c)) = committed (Num y) c" by blast
    then have "index (cstate (snd (run k c))) = Num (clamp N m y)"
      using committed_fields(1)[OF c] by simp
    moreover have "0 \<le> clamp N m y \<and> clamp N m y \<le> int N - int m"
      using mN by (auto simp: clamp_def)
    ultimately show ?thesis by blast
  qed
qed

lemma next_at_maximum:
  assumes c: "configured N m c" and mN: "m \<le> N" and x: "index (cstate c) = Num (int N - int m)"
  shows "index (cstate (snd (nextFrame c))) = Num (int N - int m)"
    and "fst (nextFrame c) = None"
    and "events (cenv (snd (nextFrame c))) =
           events (cenv c) @ [Publish ''/nextFrame/before''] @
           animate_events (copts c) (cstate (snd (nextFrame c))) @ [Publish ''/nextFrame/after'']"
proof -
  have m1: "1 \<le> m" using c by (simp add: configured_def)
  let ?c = "on_env (publish ''/nextFrame/before'') c"
  let ?y = "int N - int m + (if incrementMode (copts c) = ''tile'' then 1 else int m)"
  have c': "configured N m ?c" using c by (simp add: configured_def)
  have n: "nextFrame c = and_then (updateState (Num ?y) True ?c)
              (\<lambda>c. (None, on_env (publish ''/nextFrame/after'') c))"
    using c x by (simp add: nextFrame_def Let_def configured_def)
  have st: "cstate (snd (nextFrame c)) = committed (Num ?y) c"
    unfolding n by (simp add: and_then_tail updateState_cstate)
  show "index (cstate (snd (nextFrame c))) = Num (int N - int m)"
    unfolding st committed_fields(1)[OF c] using m1 by (simp add: clamp_def)
  have ok: "fst (updateState (Num ?y) True ?c) = None" by (rule committed_ok(1)[OF c' mN])
  show "fst (nextFrame c) = None" unfolding n using ok by (simp add: and_then_tail)
  have "events (cenv (snd (updateState (Num ?y) True ?c))) =
          events (cenv ?c) @ animate_events (copts ?c) (committed (Num ?y) ?c)"
    by (rule committed_ok(2)[OF c' mN])
  then show "events (cenv (snd (nextFrame c))) =
           events (cenv c) @ [Publish ''/nextFrame/before''] @
           animate_events (copts c) (cstate (snd (nextFrame c))) @ [Publish ''/nextFrame/after'']"
    unfolding st unfolding n using ok by (simp add: and_then_tail_env)
qed

lemma prev_at_zero:
  assumes c: "configured N m c" and mN: "m \<le> N" and x: "index (cstate c) = Num 0"
  shows "index (cstate (snd (prevFrame_method c))) = Num 0"
    and "fst (prevFrame_method c) = None"
    and "events (cenv (snd (prevFrame_method c))) =
           events (cenv c) @ [Publish ''/prevFrame/before''] @
           animate_events (copts c) (cstate (snd (prevFrame_method c))) @ [Publish ''/prevFrame/after'']"
proof -
  have m1: "1 \<le> m" using c by (simp add: configured_def)
  let ?c = "on_env (publish ''/prevFrame/before'') c"
  let ?y = "0 - (if incrementMode (copts c) = ''tile'' then 1 else int m)"
  have c': "configured N m ?c" using c by (simp add: configured_def)
  have n: "prevFrame_method c = and_then (updateState (Num ?y) True ?c)
              (\<lambda>c. (None, on_env (publish ''/prevFrame/after'') c))"
    using c x by (simp add: prevFrame_method_def Let_def configured_def js_sub_def)
  have st: "cstate (snd (prevFrame_method c)) = committed (Num ?y) c"
    unfolding n by (simp add: and_then_tail updateState_cstate)
  show "index (cstate (snd (prevFrame_method c))) = Num 0"
    unfolding st committed_fields(1)[OF c] using m1 mN by (simp add: clamp_def)
  have ok: "fst (updateState (Num ?y) True ?c) = None" by (rule committed_ok(1)[OF c' mN])
  show "fst (prevFrame_method c) = None" unfolding n using ok by (simp add: and_then_tail)
  have "events (cenv (snd (updateState (Num ?y) True ?c))) =
          events (cenv ?c) @ animate_events (copts ?c) (committed (Num ?y) ?c)"
    by (rule committed_ok(2)[OF c' mN])
  then show "events (cenv (snd (prevFrame_method c))) =
           events (cenv c) @ [Publish ''/prevFrame/before''] @
           animate_events (copts c) (cstate (snd (prevFrame_method c))) @ [Publish ''/prevFrame/after'']"
    unfolding st unfolding n using ok by (simp add: and_then_tail_env)
qed

lemma buttons_stay_disabled:
  assumes c: "configured N m c" and mN: "m = N" and x: "index (cstate c) = Num 0"
  shows "prevBtn_disabled (cenv (snd (nextFrame c))) \<and> nextBtn_disabled (cenv (snd (nextFrame c)))"
    and "prevBtn_disabled (cenv (snd (prevFrame_method c))) \<and> nextBtn_disabled (cenv (snd (prevFrame_method c)))"
proof -
  have i: "increment (copts c) = Num (int m)" using c by (simp add: configured_def)
  have x': "index (cstate c) = Num (int N - int m)" using x mN by simp
  have le: "m \<le> N" using mN by simp
  have n: "index (cstate (snd (nextFrame c))) = Num 0"
    using next_at_maximum(1)[OF c le x'] mN by simp
  have p: "index (cstate (snd (prevFrame_method c))) = Num 0"
    by (rule prev_at_zero(1)[OF c le x])
  have ln: "curTileLength (cstate (snd (nextFrame c))) = Num (int N)"
    unfolding nextFrame_cstate step_next_Num[OF i x] by (rule committed_fields(2)[OF c])
  have lp: "curTileLength (cstate (snd (prevFrame_method c))) = Num (int N)"
    unfolding prevFrame_cstate step_prev_Num[OF i x] by (rule committed_fields(2)[OF c])
  show "prevBtn_disabled (cenv (snd (nextFrame c))) \<and> nextBtn_disabled (cenv (snd (nextFrame c)))"
    using n ln i mN by (simp add: nextFrame_buttons js_seq_def js_ge_def)
  show "prevBtn_disabled (cenv (snd (prevFrame_method c))) \<and> nextBtn_disabled (cenv (snd (prevFrame_method c)))"
    using p lp i mN by (simp add: prevFrame_buttons js_seq_def js_ge_def)
qed

lemma setup_zero_increment_hangs:
  assumes "tiles \<noteq> []" "user_increment uo = Some v" "parseInt v = Num 0"
  shows "setup_carousel uo tiles = None"
proof -
  let ?e = "publish ''/init/before'' (publish ''/setup/after'' ((publish ''/setup/before'' (page tiles))\<lparr>cacheObj := []\<rparr>))"
  have ne: "children ?e \<noteq> []" using assms(1) by (simp add: page_def)
  show ?thesis
    unfolding setup_unfold init_def Let_def
    using normalizeState_hangs[OF ne] assms(2,3) by simp
qed

end
